theory Spec2Isabelle
  imports Main "HOL-Library.Word" "HOL-Library.List_Lexorder"
begin

unbundle bit_operations_syntax

section \<open>Python strings\<close>

text \<open>
  A Python \<^verbatim>\<open>str\<close> is a sequence of Unicode code points, so a string is a list of
  natural numbers.  \<open>ustr\<close> turns an ASCII literal into such a string.
\<close>

type_synonym pystr = "nat list"

definition ustr :: "string \<Rightarrow> pystr" where
  "ustr s = map of_char s"

definition NL :: nat where "NL = 10"
definition SP :: nat where "SP = 32"
definition HASH :: nat where "HASH = 35"

text \<open>
  The characters \<^verbatim>\<open>str.strip()\<close>, \<^verbatim>\<open>str.lstrip()\<close> remove when called without an
  argument: the code points CPython's \<^verbatim>\<open>_PyUnicode_IsWhitespace\<close> accepts.
\<close>

definition is_space :: "nat \<Rightarrow> bool" where
  "is_space c \<longleftrightarrow>
     (9 \<le> c \<and> c \<le> 13) \<or> (28 \<le> c \<and> c \<le> 32) \<or> c = 133 \<or> c = 160 \<or> c = 5760 \<or>
     (8192 \<le> c \<and> c \<le> 8202) \<or> c = 8232 \<or> c = 8233 \<or> c = 8239 \<or> c = 8287 \<or> c = 12288"

definition lstrip :: "pystr \<Rightarrow> pystr" where
  "lstrip s = dropWhile is_space s"

definition rstrip :: "pystr \<Rightarrow> pystr" where
  "rstrip s = rev (dropWhile is_space (rev s))"

definition strip :: "pystr \<Rightarrow> pystr" where
  "strip s = rstrip (lstrip s)"

definition startswith :: "pystr \<Rightarrow> pystr \<Rightarrow> bool" where
  "startswith s p \<longleftrightarrow> take (length p) s = p"

text \<open>\<^verbatim>\<open>content.split("\n")\<close>: never empty, one more piece than there are line feeds.\<close>

fun split_nl :: "pystr \<Rightarrow> pystr list" where
  "split_nl [] = [[]]"
| "split_nl (c # cs) =
     (if c = NL then [] # split_nl cs
      else (case split_nl cs of [] \<Rightarrow> [[c]] | l # ls \<Rightarrow> (c # l) # ls))"

text \<open>\<^verbatim>\<open>"\n".join(result_lines)\<close>.\<close>

fun join_nl :: "pystr list \<Rightarrow> pystr" where
  "join_nl [] = []"
| "join_nl [l] = l"
| "join_nl (l # m # ls) = l @ NL # join_nl (m # ls)"

section \<open>Exceptions\<close>

text \<open>
  A path is the list of its components from the root of the file system.  The exceptions
  are the ones the program can meet: \<^verbatim>\<open>TypeError\<close> from \<^verbatim>\<open>startswith(None)\<close>,
  \<^verbatim>\<open>ValueError\<close> from \<^verbatim>\<open>Path.relative_to\<close>, \<^verbatim>\<open>UnicodeEncodeError\<close> from writing text
  to a file or to the standard output, \<^verbatim>\<open>MemoryError\<close> from \<^verbatim>\<open>f.read()\<close> on a file
  that does not fit into memory, and \<^verbatim>\<open>OSError\<close> with its errno and path from the file
  system calls.  All of them are subclasses of \<^verbatim>\<open>Exception\<close>.
\<close>

type_synonym path = "pystr list"

datatype os_error = EACCES | ENOENT | EEXIST | ENOTDIR | EISDIR | ENOSPC

datatype py_exn = TypeError | ValueError | UnicodeEncodeError | MemoryError | OSError os_error path

section \<open>The heading transform\<close>

text \<open>
  \<^verbatim>\<open>h1_pattern = re.compile(r"^( {0,3})(# )(.*)$")\<close>, applied with \<^verbatim>\<open>match\<close>.
  Group 1 is greedy, but the character after it must be \<^verbatim>\<open>#\<close>, so it can only be the whole
  run of leading spaces, of length at most three.  \<^verbatim>\<open>.\<close> matches everything but a line
  feed, and \<^verbatim>\<open>$\<close> matches at the end of the string or before a line feed that ends it.
  The result is \<open>(group 1, group 3)\<close>.
\<close>

definition h1_match :: "pystr \<Rightarrow> (pystr \<times> pystr) option" where
  "h1_match line =
     (let leading_spaces = takeWhile (\<lambda>c. c = SP) line;
          after = dropWhile (\<lambda>c. c = SP) line
      in if length leading_spaces \<le> 3 \<and> startswith after [HASH, SP]
         then (let text = drop 2 after;
                   rest_of_line = takeWhile (\<lambda>c. c \<noteq> NL) text;
                   tail = dropWhile (\<lambda>c. c \<noteq> NL) text
               in if tail = [] \<or> tail = [NL] then Some (leading_spaces, rest_of_line) else None)
         else None)"

record scan_state =
  result_lines :: "pystr list"
  replacement_count :: int
  in_frontmatter :: bool
  in_code_block :: bool
  code_fence_pattern :: "pystr option"

definition initial_state :: scan_state where
  "initial_state =
     \<lparr>result_lines = [], replacement_count = 0, in_frontmatter = False,
      in_code_block = False, code_fence_pattern = None\<rparr>"

definition append_line :: "pystr \<Rightarrow> scan_state \<Rightarrow> scan_state" where
  "append_line line st = st\<lparr>result_lines := result_lines st @ [line]\<rparr>"

text \<open>
  The body of \<^verbatim>\<open>for i, line in enumerate(lines)\<close>.  \<^verbatim>\<open>stripped.startswith(None)\<close>
  raises \<^verbatim>\<open>TypeError\<close>.
\<close>

definition loop_body :: "nat \<Rightarrow> pystr \<Rightarrow> scan_state \<Rightarrow> py_exn + scan_state" where
  "loop_body i line st =
     (if i = 0 \<and> strip line = ustr ''---'' then
        Inr (append_line line (st\<lparr>in_frontmatter := True\<rparr>))
      else if in_frontmatter st then
        (let st1 = append_line line st
         in Inr (if strip line = ustr ''---'' then st1\<lparr>in_frontmatter := False\<rparr> else st1))
      else
        (let stripped = lstrip line in
         if \<not> in_code_block st \<and> startswith stripped (ustr ''```'') then
           Inr (append_line line (st\<lparr>in_code_block := True, code_fence_pattern := Some (ustr ''```'')\<rparr>))
         else if \<not> in_code_block st \<and> startswith stripped (ustr ''~~~'') then
           Inr (append_line line (st\<lparr>in_code_block := True, code_fence_pattern := Some (ustr ''~~~'')\<rparr>))
         else if in_code_block st then
           (case code_fence_pattern st of
              None \<Rightarrow> Inl TypeError
            | Some pat \<Rightarrow>
                Inr (append_line line
                      (if startswith stripped pat
                       then st\<lparr>in_code_block := False, code_fence_pattern := None\<rparr>
                       else st)))
         else
           (case h1_match line of
              Some (leading_spaces, rest_of_line) \<Rightarrow>
                Inr ((append_line (leading_spaces @ ustr ''## '' @ rest_of_line) st)
                       \<lparr>replacement_count := replacement_count st + 1\<rparr>)
            | None \<Rightarrow> Inr (append_line line st))))"

fun for_lines :: "nat \<Rightarrow> pystr list \<Rightarrow> scan_state \<Rightarrow> py_exn + scan_state" where
  "for_lines i [] st = Inr st"
| "for_lines i (line # rest) st =
     (case loop_body i line st of
        Inl e \<Rightarrow> Inl e
      | Inr st' \<Rightarrow> for_lines (Suc i) rest st')"

definition convert_h1_to_h2 :: "pystr \<Rightarrow> py_exn + (pystr \<times> int)" where
  "convert_h1_to_h2 content =
     (case for_lines 0 (split_nl content) initial_state of
        Inl e \<Rightarrow> Inl e
      | Inr st \<Rightarrow> Inr (join_nl (result_lines st), replacement_count st))"

section \<open>Reading the loop line by line\<close>

text \<open>
  The state the loop is in just before it reads line \<open>i\<close>: the loop run on the first
  \<open>i\<close> lines.  \<open>fence_ok\<close> and \<open>reach\<close> are the invariants of the loop.
\<close>

definition state_before :: "pystr \<Rightarrow> nat \<Rightarrow> py_exn + scan_state" where
  "state_before content i = for_lines 0 (take i (split_nl content)) initial_state"

definition fence_ok :: "scan_state \<Rightarrow> bool" where
  "fence_ok st \<longleftrightarrow>
     (if in_code_block st
      then \<not> in_frontmatter st \<and> (code_fence_pattern st = Some (ustr ''```'') \<or> code_fence_pattern st = Some (ustr ''~~~''))
      else True)"

definition reach :: "nat \<Rightarrow> scan_state \<Rightarrow> bool" where
  "reach i st \<longleftrightarrow>
     fence_ok st \<and> length (result_lines st) = i \<and>
     (0 < i \<or> (\<not> in_frontmatter st \<and> \<not> in_code_block st))"

text \<open>
  The transform never raises (see \<open>trace_step\<close> below), so the state before line \<open>i\<close>,
  the lines of the returned content and the returned count can be named directly.
\<close>

definition state_at :: "pystr \<Rightarrow> nat \<Rightarrow> scan_state" where
  "state_at content i = (case state_before content i of Inr st \<Rightarrow> st | Inl e \<Rightarrow> initial_state)"

definition output_lines :: "pystr \<Rightarrow> pystr list" where
  "output_lines content =
     (case convert_h1_to_h2 content of Inr (new_content, n) \<Rightarrow> split_nl new_content | Inl e \<Rightarrow> [])"

definition reported_count :: "pystr \<Rightarrow> int" where
  "reported_count content =
     (case convert_h1_to_h2 content of Inr (new_content, n) \<Rightarrow> n | Inl e \<Rightarrow> 0)"

text \<open>
  Notions the claims about whole inputs use: two states with the same flags, what the loop
  does to one line in the normal state, an input without frontmatter and without fences,
  the number of its lines the heading pattern matches, and the number of lines that begin
  with \<open>##\<close>.
\<close>

definition convert_line :: "pystr \<Rightarrow> pystr" where
  "convert_line line =
     (case h1_match line of
        Some (leading_spaces, rest_of_line) \<Rightarrow> leading_spaces @ ustr ''## '' @ rest_of_line
      | None \<Rightarrow> line)"

definition no_excluded_regions :: "pystr \<Rightarrow> bool" where
  "no_excluded_regions content \<longleftrightarrow>
     strip (hd (split_nl content)) \<noteq> ustr ''---'' \<and>
     list_all (\<lambda>l. \<not> startswith (lstrip l) (ustr ''```'') \<and> \<not> startswith (lstrip l) (ustr ''~~~''))
       (split_nl content)"

definition h1_line_count :: "pystr \<Rightarrow> nat" where
  "h1_line_count content = length (filter (\<lambda>l. h1_match l \<noteq> None) (split_nl content))"

definition h2_prefix_count :: "pystr \<Rightarrow> nat" where
  "h2_prefix_count content =
     length (filter (\<lambda>l. startswith l (ustr ''##'')) (split_nl content))"

definition same_flags :: "scan_state \<Rightarrow> scan_state \<Rightarrow> bool" where
  "same_flags a b \<longleftrightarrow>
     in_frontmatter a = in_frontmatter b \<and> in_code_block a = in_code_block b \<and>
     code_fence_pattern a = code_fence_pattern b"

section \<open>Bytes and codecs\<close>

text \<open>
  The three codecs of \<^verbatim>\<open>process_file\<close>, as Python's standard library defines them: strict
  UTF-8 (no overlong forms, no surrogates, nothing above U+10FFFF), the same after an
  optional byte order mark, and Latin-1, which maps every byte to the code point of the
  same number.  \<open>None\<close> stands for \<^verbatim>\<open>UnicodeDecodeError\<close> and \<^verbatim>\<open>UnicodeEncodeError\<close>.
\<close>

type_synonym byte = "8 word"

datatype encoding = Utf8 | Utf8Sig | Latin1

definition is_cont :: "byte \<Rightarrow> bool" where
  "is_cont b \<longleftrightarrow> 0x80 \<le> unat b \<and> unat b \<le> 0xBF"

definition low6 :: "byte \<Rightarrow> nat" where
  "low6 b = unat b mod 64"

fun decode_utf8 :: "byte list \<Rightarrow> pystr option" where
  "decode_utf8 [] = Some []"
| "decode_utf8 (b0 # bs) =
     (if unat b0 < 0x80 then map_option ((#) (unat b0)) (decode_utf8 bs)
      else if 0xC2 \<le> unat b0 \<and> unat b0 \<le> 0xDF then
        (case bs of
           b1 # r \<Rightarrow>
             if is_cont b1
             then map_option ((#) (unat b0 mod 32 * 64 + low6 b1)) (decode_utf8 r)
             else None
         | _ \<Rightarrow> None)
      else if 0xE0 \<le> unat b0 \<and> unat b0 \<le> 0xEF then
        (case bs of
           b1 # b2 # r \<Rightarrow>
             if is_cont b1 \<and> is_cont b2 \<and>
                (if unat b0 = 0xE0 then 0xA0 \<le> unat b1 else True) \<and>
                (if unat b0 = 0xED then unat b1 \<le> 0x9F else True)
             then map_option ((#) (unat b0 mod 16 * 4096 + low6 b1 * 64 + low6 b2)) (decode_utf8 r)
             else None
         | _ \<Rightarrow> None)
      else if 0xF0 \<le> unat b0 \<and> unat b0 \<le> 0xF4 then
        (case bs of
           b1 # b2 # b3 # r \<Rightarrow>
             if is_cont b1 \<and> is_cont b2 \<and> is_cont b3 \<and>
                (if unat b0 = 0xF0 then 0x90 \<le> unat b1 else True) \<and>
                (if unat b0 = 0xF4 then unat b1 \<le> 0x8F else True)
             then map_option
                    ((#) (unat b0 mod 8 * 262144 + low6 b1 * 4096 + low6 b2 * 64 + low6 b3))
                    (decode_utf8 r)
             else None
         | _ \<Rightarrow> None)
      else None)"

definition decode :: "encoding \<Rightarrow> byte list \<Rightarrow> pystr option" where
  "decode enc bs =
     (case enc of
        Utf8 \<Rightarrow> decode_utf8 bs
      | Utf8Sig \<Rightarrow>
          (if take 3 bs = [0xEF, 0xBB, 0xBF] then decode_utf8 (drop 3 bs) else decode_utf8 bs)
      | Latin1 \<Rightarrow> Some (map unat bs))"

fun encode_utf8 :: "pystr \<Rightarrow> byte list option" where
  "encode_utf8 [] = Some []"
| "encode_utf8 (c # cs) =
     (let first_bytes =
        (if c < 0x80 then Some [of_nat c]
         else if c < 0x800 then Some [of_nat (0xC0 + c div 64), of_nat (0x80 + c mod 64)]
         else if c < 0x10000 then
           (if 0xD800 \<le> c \<and> c \<le> 0xDFFF then None
            else Some [of_nat (0xE0 + c div 4096), of_nat (0x80 + c div 64 mod 64),
                       of_nat (0x80 + c mod 64)])
         else if c < 0x110000 then
           Some [of_nat (0xF0 + c div 262144), of_nat (0x80 + c div 4096 mod 64),
                 of_nat (0x80 + c div 64 mod 64), of_nat (0x80 + c mod 64)]
         else None)
      in case first_bytes of
           None \<Rightarrow> None
         | Some bs \<Rightarrow> map_option ((@) bs) (encode_utf8 cs))"

definition encode :: "encoding \<Rightarrow> pystr \<Rightarrow> byte list option" where
  "encode enc s =
     (case enc of
        Utf8 \<Rightarrow> encode_utf8 s
      | Utf8Sig \<Rightarrow> map_option ((@) [0xEF, 0xBB, 0xBF]) (encode_utf8 s)
      | Latin1 \<Rightarrow> (if list_all (\<lambda>c. c < 256) s then Some (map of_nat s) else None))"

text \<open>
  Reading in text mode with the default \<^verbatim>\<open>newline=None\<close> turns \<^verbatim>\<open>\r\n\<close> and a lone
  \<^verbatim>\<open>\r\<close> into \<^verbatim>\<open>\n\<close>.
\<close>

fun universal_newlines :: "pystr \<Rightarrow> pystr" where
  "universal_newlines [] = []"
| "universal_newlines [c] = (if c = 13 then [10] else [c])"
| "universal_newlines (c # d # cs) =
     (if c = 13 \<and> d = 10 then 10 # universal_newlines cs
      else if c = 13 then 10 # universal_newlines (d # cs)
      else c # universal_newlines (d # cs))"

section \<open>The file system and the calls the program makes\<close>

text \<open>
  The world the program runs in.  \<open>fs\<close> maps a path to what is there; \<open>history\<close> is a
  ghost record of the file system after every call that changed it, oldest first, so that
  states between two calls can be spoken about.  The rest is the environment the program
  does not control: which call on which path the operating system refuses (\<open>denied\<close>), how
  many bytes a refused write gets onto the disk before it fails (\<open>short_write\<close>), the random
  parts \<^verbatim>\<open>mkstemp\<close> will try (\<open>tmp_names\<close>), and the clock (\<open>now_stamp\<close> is
  \<^verbatim>\<open>datetime.now().strftime("%Y%m%d_%H%M%S")\<close>, \<open>now_meta\<close> the time and mode a new file
  gets), and the directory listing \<^verbatim>\<open>os.walk\<close> gets (\<open>walk_view\<close>).

  The metadata of a file is in two places.  \<open>file_meta\<close> of a \<open>File\<close> is its mode and
  modification time, which change only when the file is created or written.  Its access
  time is \<open>atime\<close>, which the system sets to the clock when the file is read, on the
  paths where \<open>updates_atime\<close> holds (mount options such as \<^verbatim>\<open>noatime\<close> and
  \<^verbatim>\<open>relatime\<close> decide that, not the program).  \<open>memory\<close> is the number of bytes
  \<^verbatim>\<open>f.read()\<close> can hold, and \<open>stdout_encodes\<close> says which characters the encoding of the
  standard output has.
\<close>

datatype node = File (file_bytes: "byte list") (file_meta: nat) | Dir

text \<open>
  What \<^verbatim>\<open>os.walk\<close> finds below a directory: the names of its subdirectories, each with
  what is below it, and the names of its files, in the order the system lists them.
\<close>

datatype dtree = DTree (subdirs: "(pystr \<times> dtree) list") (filenames: "pystr list")

datatype sys_op = OpRead | OpCreate | OpWrite | OpReplace | OpUnlink | OpMkdir

record world =
  fs :: "path \<rightharpoonup> node"
  history :: "(path \<rightharpoonup> node) list"
  stdout :: "pystr list"
  stderr :: "pystr list"
  denied :: "sys_op \<Rightarrow> path \<Rightarrow> bool"
  short_write :: nat
  tmp_names :: "pystr list"
  now_stamp :: pystr
  now_meta :: nat
  walk_view :: "path \<Rightarrow> dtree"
  atime :: "path \<Rightarrow> nat"
  updates_atime :: "path \<Rightarrow> bool"
  memory :: nat
  stdout_encodes :: "nat \<Rightarrow> bool"

definition set_fs :: "(path \<rightharpoonup> node) \<Rightarrow> world \<Rightarrow> world" where
  "set_fs f w = w\<lparr>fs := f, history := history w @ [f]\<rparr>"

text \<open>
  \<^verbatim>\<open>print(s)\<close>: a text with a character that the encoding of the standard output does not
  have raises \<^verbatim>\<open>UnicodeEncodeError\<close> and nothing of it is counted as printed.
  \<^verbatim>\<open>print(s, file=sys.stderr)\<close> does not raise: the standard error stream replaces what it
  cannot encode.
\<close>

definition print :: "pystr \<Rightarrow> world \<Rightarrow> (py_exn + unit) \<times> world" where
  "print s w =
     (if list_all (stdout_encodes w) s then (Inr (), w\<lparr>stdout := stdout w @ [s]\<rparr>)
      else (Inl UnicodeEncodeError, w))"

definition print_err :: "pystr \<Rightarrow> world \<Rightarrow> world" where
  "print_err s w = w\<lparr>stderr := stderr w @ [s]\<rparr>"

definition parent :: "path \<Rightarrow> path" where
  "parent p = butlast p"

definition name :: "path \<Rightarrow> pystr" where
  "name p = (if p = [] then [] else last p)"

text \<open>\<^verbatim>\<open>str(path)\<close> of an absolute POSIX path.\<close>

definition str_path :: "path \<Rightarrow> pystr" where
  "str_path p = (if p = [] then ustr ''/'' else concat (map (\<lambda>c. ustr ''/'' @ c) p))"

text \<open>
  \<^verbatim>\<open>str(e)\<close>.  The texts are shortened.  \<^verbatim>\<open>MemoryError\<close> is raised without arguments,
  and \<^verbatim>\<open>str\<close> of it is the empty string.
\<close>

definition strerror :: "os_error \<Rightarrow> pystr" where
  "strerror e =
     (case e of
        EACCES \<Rightarrow> ustr ''[Errno 13] Permission denied''
      | ENOENT \<Rightarrow> ustr ''[Errno 2] No such file or directory''
      | EEXIST \<Rightarrow> ustr ''[Errno 17] File exists''
      | ENOTDIR \<Rightarrow> ustr ''[Errno 20] Not a directory''
      | EISDIR \<Rightarrow> ustr ''[Errno 21] Is a directory''
      | ENOSPC \<Rightarrow> ustr ''[Errno 28] No space left on device'')"

definition str_exn :: "py_exn \<Rightarrow> pystr" where
  "str_exn e =
     (case e of
        TypeError \<Rightarrow> ustr ''startswith first arg must be str or a tuple of str, not NoneType''
      | ValueError \<Rightarrow> ustr ''path is not in the subpath of the vault''
      | UnicodeEncodeError \<Rightarrow> ustr ''codec can't encode character''
      | MemoryError \<Rightarrow> []
      | OSError err p \<Rightarrow> strerror err @ ustr '': '' @ [39] @ str_path p @ [39])"

text \<open>What reading the file at \<open>p\<close> does to the world: the system notes the time of the access.\<close>

definition touch :: "path \<Rightarrow> world \<Rightarrow> world" where
  "touch p w = (if updates_atime w p then w\<lparr>atime := (atime w)(p := now_meta w)\<rparr> else w)"

text \<open>
  \<^verbatim>\<open>open(p, "r")\<close> followed by \<^verbatim>\<open>f.read()\<close>, as bytes.  Reading a file leaves \<open>fs\<close> alone
  and sets the access time of the file; a file longer than \<open>memory\<close> raises
  \<^verbatim>\<open>MemoryError\<close>, after the system has begun to read it.
\<close>

definition read_bytes :: "path \<Rightarrow> world \<Rightarrow> (py_exn + byte list) \<times> world" where
  "read_bytes p w =
     (if denied w OpRead p then (Inl (OSError EACCES p), w)
      else case fs w p of
             None \<Rightarrow> (Inl (OSError ENOENT p), w)
           | Some Dir \<Rightarrow> (Inl (OSError EISDIR p), w)
           | Some (File bs m) \<Rightarrow>
               (if memory w < length bs then (Inl MemoryError, touch p w)
                else (Inr bs, touch p w)))"

text \<open>
  \<^verbatim>\<open>tempfile.mkstemp(suffix, prefix, dir)\<close>: the first candidate name that does not exist is
  created empty; \<^verbatim>\<open>FileExistsError\<close> when every candidate exists.
\<close>

definition mkstemp :: "pystr \<Rightarrow> pystr \<Rightarrow> path \<Rightarrow> world \<Rightarrow> (py_exn + path) \<times> world" where
  "mkstemp suffix prefix dir w =
     (if denied w OpCreate dir then (Inl (OSError EACCES dir), w)
      else case fs w dir of
             None \<Rightarrow> (Inl (OSError ENOENT dir), w)
           | Some (File bs m) \<Rightarrow> (Inl (OSError ENOTDIR dir), w)
           | Some Dir \<Rightarrow>
               (case find (\<lambda>r. fs w (dir @ [prefix @ r @ suffix]) = None) (tmp_names w) of
                  None \<Rightarrow> (Inl (OSError EEXIST dir), w)
                | Some r \<Rightarrow>
                    (let temp_path = dir @ [prefix @ r @ suffix]
                     in (Inr temp_path, set_fs ((fs w)(temp_path \<mapsto> File [] (now_meta w))) w))))"

text \<open>
  \<^verbatim>\<open>with os.fdopen(fd, "w", encoding=encoding, newline="") as f: f.write(content)\<close> on the
  file \<open>p\<close> that \<^verbatim>\<open>mkstemp\<close> opened.  A text the codec cannot encode raises before anything
  is written; a write the system refuses leaves the first \<open>short_write\<close> bytes in the file.
\<close>

definition write_text :: "path \<Rightarrow> pystr \<Rightarrow> encoding \<Rightarrow> world \<Rightarrow> (py_exn + unit) \<times> world" where
  "write_text p content enc w =
     (case encode enc content of
        None \<Rightarrow> (Inl UnicodeEncodeError, w)
      | Some bs \<Rightarrow>
          (let m = (case fs w p of Some (File old m) \<Rightarrow> m | _ \<Rightarrow> now_meta w)
           in if denied w OpWrite p
              then (Inl (OSError ENOSPC p), set_fs ((fs w)(p \<mapsto> File (take (short_write w) bs) m)) w)
              else (Inr (), set_fs ((fs w)(p \<mapsto> File bs m)) w)))"

text \<open>\<^verbatim>\<open>Path(src).replace(dst)\<close>, that is \<^verbatim>\<open>os.replace\<close>: one step of the file system.\<close>

definition replace :: "path \<Rightarrow> path \<Rightarrow> world \<Rightarrow> (py_exn + unit) \<times> world" where
  "replace src dst w =
     (if denied w OpReplace dst then (Inl (OSError EACCES dst), w)
      else case fs w src of
             None \<Rightarrow> (Inl (OSError ENOENT src), w)
           | Some n \<Rightarrow>
               (if src = dst then (Inr (), w)
                else if fs w dst = Some Dir then (Inl (OSError EISDIR dst), w)
                else (Inr (), set_fs ((fs w)(dst \<mapsto> n, src := None)) w)))"

definition unlink :: "path \<Rightarrow> world \<Rightarrow> (py_exn + unit) \<times> world" where
  "unlink p w =
     (if denied w OpUnlink p then (Inl (OSError EACCES p), w)
      else case fs w p of
             None \<Rightarrow> (Inl (OSError ENOENT p), w)
           | Some Dir \<Rightarrow> (Inl (OSError EISDIR p), w)
           | Some (File bs m) \<Rightarrow> (Inr (), set_fs ((fs w)(p := None)) w))"

text \<open>
  \<^verbatim>\<open>Path.mkdir(exist_ok=...)\<close> without \<^verbatim>\<open>parents\<close>: an existing directory is accepted
  when \<^verbatim>\<open>exist_ok\<close> is set, whatever the call itself answered.
\<close>

definition mkdir :: "path \<Rightarrow> bool \<Rightarrow> world \<Rightarrow> (py_exn + unit) \<times> world" where
  "mkdir p exist_ok w =
     (case fs w p of
        Some Dir \<Rightarrow> (if exist_ok then (Inr (), w) else (Inl (OSError EEXIST p), w))
      | Some (File bs m) \<Rightarrow> (Inl (OSError EEXIST p), w)
      | None \<Rightarrow>
          (case fs w (parent p) of
             None \<Rightarrow> (Inl (OSError ENOENT p), w)
           | Some (File bs m) \<Rightarrow> (Inl (OSError ENOTDIR p), w)
           | Some Dir \<Rightarrow>
               (if denied w OpMkdir p then (Inl (OSError EACCES p), w)
                else (Inr (), set_fs ((fs w)(p \<mapsto> Dir)) w))))"

text \<open>
  \<^verbatim>\<open>Path.mkdir(parents=True, exist_ok=True)\<close>: on \<^verbatim>\<open>FileNotFoundError\<close> the parent is made
  first, then the directory itself.
\<close>

function mkdir_parents :: "path \<Rightarrow> world \<Rightarrow> (py_exn + unit) \<times> world" where
  "mkdir_parents p w =
     (case mkdir p True w of
        (Inr u, w1) \<Rightarrow> (Inr (), w1)
      | (Inl e, w1) \<Rightarrow>
          (if e = OSError ENOENT p \<and> p \<noteq> [] then
             (case mkdir_parents (parent p) w1 of
                (Inl e', w2) \<Rightarrow> (Inl e', w2)
              | (Inr u, w2) \<Rightarrow> mkdir p True w2)
           else (Inl e, w1)))"
  by pat_completeness auto
termination
  by (relation "measure (\<lambda>(p, w). length p)") (auto simp: parent_def)

text \<open>
  \<^verbatim>\<open>shutil.copy2(src, dst)\<close>: the bytes and the metadata of \<open>src\<close> are written to \<open>dst\<close>, or
  into \<open>dst\<close> under the name of \<open>src\<close> when \<open>dst\<close> is a directory.  The copy is made in
  pieces, so the size of the file does not matter; \<open>src\<close> is read, which sets its access
  time, and the copy gets the access time \<open>src\<close> has then.
\<close>

definition copy2 :: "path \<Rightarrow> path \<Rightarrow> world \<Rightarrow> (py_exn + unit) \<times> world" where
  "copy2 src dst w =
     (let dst' = (if fs w dst = Some Dir then dst @ [name src] else dst) in
      if denied w OpRead src then (Inl (OSError EACCES src), w)
      else case fs w src of
             None \<Rightarrow> (Inl (OSError ENOENT src), w)
           | Some Dir \<Rightarrow> (Inl (OSError EISDIR src), w)
           | Some (File bs m) \<Rightarrow>
               (if denied w OpWrite dst' then (Inl (OSError EACCES dst'), w)
                else if fs w (parent dst') \<noteq> Some Dir then (Inl (OSError ENOENT dst'), w)
                else if fs w dst' = Some Dir then (Inl (OSError EISDIR dst'), w)
                else (let w1 = touch src w
                      in (Inr (), (set_fs ((fs w)(dst' \<mapsto> File bs m)) w1)
                                    \<lparr>atime := (atime w1)(dst' := atime w1 src)\<rparr>))))"

text \<open>\<^verbatim>\<open>path.relative_to(vault_root)\<close>.\<close>

definition relative_to :: "path \<Rightarrow> path \<Rightarrow> py_exn + path" where
  "relative_to p vault_root =
     (if take (length vault_root) p = vault_root then Inr (drop (length vault_root) p)
      else Inl ValueError)"

text \<open>
  \<^verbatim>\<open>Path.suffix\<close> and \<^verbatim>\<open>Path.stem\<close>: the name is cut at its last dot, unless that dot is
  the first or the last character or there is none.
\<close>

definition last_dot :: "pystr \<Rightarrow> nat option" where
  "last_dot n =
     (case filter (\<lambda>i. n ! i = 46) (rev [0..<length n]) of
        [] \<Rightarrow> None
      | i # _ \<Rightarrow> (if 0 < i \<and> i < length n - 1 then Some i else None))"

definition suffix :: "path \<Rightarrow> pystr" where
  "suffix p = (case last_dot (name p) of None \<Rightarrow> [] | Some i \<Rightarrow> drop i (name p))"

definition stem :: "path \<Rightarrow> pystr" where
  "stem p = (case last_dot (name p) of None \<Rightarrow> name p | Some i \<Rightarrow> take i (name p))"

section \<open>Backups and atomic writes\<close>

definition create_backup :: "path \<Rightarrow> path \<Rightarrow> world \<Rightarrow> (py_exn + path) \<times> world" where
  "create_backup p vault_root w =
     (let backup_dir = vault_root @ [ustr ''_backups''] in
      case mkdir backup_dir True w of
        (Inl e, w1) \<Rightarrow> (Inl e, w1)
      | (Inr u, w1) \<Rightarrow>
          (case (case relative_to p vault_root of
                   Inl e \<Rightarrow> (Inr backup_dir, w1)
                 | Inr rel_path \<Rightarrow>
                     (let backup_subdir = backup_dir @ parent rel_path in
                      case mkdir_parents backup_subdir w1 of
                        (Inl e, w2) \<Rightarrow> (Inl e, w2)
                      | (Inr u, w2) \<Rightarrow> (Inr backup_subdir, w2))) of
             (Inl e, w2) \<Rightarrow> (Inl e, w2)
           | (Inr backup_subdir, w2) \<Rightarrow>
               (let timestamp = now_stamp w2;
                    backup_name = stem p @ ustr ''_'' @ timestamp @ suffix p;
                    backup_path = backup_subdir @ [backup_name]
                in case copy2 p backup_path w2 of
                     (Inl e, w3) \<Rightarrow> (Inl e, w3)
                   | (Inr u, w3) \<Rightarrow> (Inr backup_path, w3))))"

text \<open>
  \<^verbatim>\<open>write_file_atomic\<close>.  \<^verbatim>\<open>mkstemp\<close> is called before the \<^verbatim>\<open>try\<close>; inside it the text is
  written and the temporary file renamed over the target; \<^verbatim>\<open>except Exception\<close> unlinks the
  temporary file, ignores an \<^verbatim>\<open>OSError\<close> of the unlink, and raises the exception again.
\<close>

definition write_file_atomic :: "path \<Rightarrow> pystr \<Rightarrow> encoding \<Rightarrow> world \<Rightarrow> (py_exn + unit) \<times> world" where
  "write_file_atomic p content enc w =
     (let dir_path = parent p in
      case mkstemp (ustr ''.tmp'') (ustr ''.'' @ name p @ ustr ''_'') dir_path w of
        (Inl e, w1) \<Rightarrow> (Inl e, w1)
      | (Inr temp_path, w1) \<Rightarrow>
          (case (case write_text temp_path content enc w1 of
                   (Inl e, w2) \<Rightarrow> (Inl e, w2)
                 | (Inr u, w2) \<Rightarrow> replace temp_path p w2) of
             (Inr u, w3) \<Rightarrow> (Inr (), w3)
           | (Inl e, w3) \<Rightarrow>
               (case unlink temp_path w3 of
                  (Inl (OSError err q), w4) \<Rightarrow> (Inl e, w4)
                | (Inl e', w4) \<Rightarrow> (Inl e', w4)
                | (Inr u, w4) \<Rightarrow> (Inl e, w4))))"


section \<open>Processing one file\<close>

record conversion_result =
  file_path :: path
  replacements :: int
  modified :: bool
  error :: "pystr option"

text \<open>\<^verbatim>\<open>str\<close> of an integer and of a relative path, for the messages.\<close>

fun str_nat :: "nat \<Rightarrow> pystr" where
  "str_nat n = (if n < 10 then [48 + n] else str_nat (n div 10) @ [48 + n mod 10])"

declare str_nat.simps [simp del]

definition str_int :: "int \<Rightarrow> pystr" where
  "str_int k = (if k < 0 then ustr ''-'' @ str_nat (nat (- k)) else str_nat (nat k))"

definition str_rel :: "path \<Rightarrow> pystr" where
  "str_rel p = (case p of [] \<Rightarrow> ustr ''.'' | c # cs \<Rightarrow> c @ concat (map (\<lambda>d. ustr ''/'' @ d) cs))"

text \<open>
  The loop \<^verbatim>\<open>for encoding in ["utf-8", "utf-8-sig", "latin-1"]\<close>, for any list of
  encodings: the file is opened and read with each encoding in turn,
  \<^verbatim>\<open>UnicodeDecodeError\<close> goes on to the next one, any other exception leaves the loop, and
  the first success ends it.  \<open>Inr None\<close> is the loop running out with \<^verbatim>\<open>content\<close> still
  \<^verbatim>\<open>None\<close>.
\<close>

fun read_first ::
  "encoding list \<Rightarrow> path \<Rightarrow> world \<Rightarrow> (py_exn + (pystr \<times> encoding) option) \<times> world" where
  "read_first [] p w = (Inr None, w)"
| "read_first (enc # encs) p w =
     (case read_bytes p w of
        (Inl e, w1) \<Rightarrow> (Inl e, w1)
      | (Inr bs, w1) \<Rightarrow>
          (case decode enc bs of
             None \<Rightarrow> read_first encs p w1
           | Some decoded \<Rightarrow> (Inr (Some (universal_newlines decoded, enc)), w1)))"

text \<open>
  The body of the \<^verbatim>\<open>try\<close> of \<^verbatim>\<open>process_file\<close>, in the order of the source.  An exception
  comes back as \<open>Inl\<close> together with the world as it was when it was raised.

  \<open>announce\<close> is \<^verbatim>\<open>if verbose: rel_path = file_path.relative_to(vault_root); print(...)\<close>.
\<close>

definition announce :: "bool \<Rightarrow> path \<Rightarrow> path \<Rightarrow> int \<Rightarrow> world \<Rightarrow> (py_exn + unit) \<times> world" where
  "announce verbose p vault_root n w =
     (if verbose
      then (case relative_to p vault_root of
              Inl e \<Rightarrow> (Inl e, w)
            | Inr rel_path \<Rightarrow>
                print (ustr ''  '' @ str_rel rel_path @ ustr '': '' @ str_int n @
                       ustr '' H1 heading(s) found'') w)
      else (Inr (), w))"

text \<open>
  \<open>backup_step\<close> is
  \<^verbatim>\<open>if create_backups: backup_path = create_backup(...); if verbose: print(...)\<close>.
\<close>

definition backup_step :: "bool \<Rightarrow> bool \<Rightarrow> path \<Rightarrow> path \<Rightarrow> world \<Rightarrow> (py_exn + unit) \<times> world" where
  "backup_step create_backups verbose p vault_root w =
     (if create_backups
      then (case create_backup p vault_root w of
              (Inl e, w1) \<Rightarrow> (Inl e, w1)
            | (Inr backup_path, w1) \<Rightarrow>
                (if verbose
                 then print (ustr ''    Backup created: '' @ name backup_path) w1
                 else (Inr (), w1)))
      else (Inr (), w))"

text \<open>
  \<open>after_decode\<close> is the \<^verbatim>\<open>try\<close> from \<^verbatim>\<open>if content is None\<close> on; \<open>found\<close> is what the loop
  left in \<^verbatim>\<open>content\<close> and \<^verbatim>\<open>encoding_used\<close>.
\<close>

definition after_decode ::
  "(pystr \<times> encoding) option \<Rightarrow> path \<Rightarrow> path \<Rightarrow> bool \<Rightarrow> bool \<Rightarrow> bool \<Rightarrow> world \<Rightarrow>
     (py_exn + conversion_result) \<times> world" where
  "after_decode found p vault_root dry_run create_backups verbose w =
     (case found of
        None \<Rightarrow>
          (Inr \<lparr>file_path = p, replacements = 0, modified = False,
                error = Some (ustr ''Could not decode file with supported encodings'')\<rparr>, w)
      | Some (content, encoding_used) \<Rightarrow>
          (case convert_h1_to_h2 content of
             Inl e \<Rightarrow> (Inl e, w)
           | Inr (new_content, n) \<Rightarrow>
               if n = 0 then
                 (Inr \<lparr>file_path = p, replacements = 0, modified = False, error = None\<rparr>, w)
               else
                 (case announce verbose p vault_root n w of
                    (Inl e, w1) \<Rightarrow> (Inl e, w1)
                  | (Inr u, w1) \<Rightarrow>
                      if dry_run then
                        (Inr \<lparr>file_path = p, replacements = n, modified = False, error = None\<rparr>, w1)
                      else
                        (case backup_step create_backups verbose p vault_root w1 of
                           (Inl e, w2) \<Rightarrow> (Inl e, w2)
                         | (Inr u, w2) \<Rightarrow>
                             (case write_file_atomic p new_content encoding_used w2 of
                                (Inl e, w3) \<Rightarrow> (Inl e, w3)
                              | (Inr u, w3) \<Rightarrow>
                                  (Inr \<lparr>file_path = p, replacements = n, modified = True,
                                        error = None\<rparr>, w3))))))"

definition process_file_try ::
  "path \<Rightarrow> path \<Rightarrow> bool \<Rightarrow> bool \<Rightarrow> bool \<Rightarrow> world \<Rightarrow> (py_exn + conversion_result) \<times> world" where
  "process_file_try p vault_root dry_run create_backups verbose w =
     (case read_first [Utf8, Utf8Sig, Latin1] p w of
        (Inl e, w0) \<Rightarrow> (Inl e, w0)
      | (Inr found, w0) \<Rightarrow> after_decode found p vault_root dry_run create_backups verbose w0)"

text \<open>
  \<^verbatim>\<open>process_file\<close>: the \<^verbatim>\<open>try\<close> and its \<^verbatim>\<open>except Exception as e\<close>, where the exception
  becomes the \<^verbatim>\<open>error\<close> of the result, as \<^verbatim>\<open>str(e)\<close>.
\<close>

definition process_file ::
  "path \<Rightarrow> path \<Rightarrow> bool \<Rightarrow> bool \<Rightarrow> bool \<Rightarrow> world \<Rightarrow> conversion_result \<times> world" where
  "process_file p vault_root dry_run create_backups verbose w =
     (case process_file_try p vault_root dry_run create_backups verbose w of
        (Inr r, w') \<Rightarrow> (r, w')
      | (Inl e, w') \<Rightarrow>
          (\<lparr>file_path = p, replacements = 0, modified = False, error = Some (str_exn e)\<rparr>, w'))"


section \<open>Finding the files\<close>

definition endswith :: "pystr \<Rightarrow> pystr \<Rightarrow> bool" where
  "endswith s p \<longleftrightarrow> length p \<le> length s \<and> drop (length s - length p) s = p"

definition DEFAULT_EXCLUDES :: "pystr set" where
  "DEFAULT_EXCLUDES =
     {ustr ''.obsidian'', ustr ''.git'', ustr ''node_modules'', ustr ''.trash'', ustr ''.DS_Store''}"

definition should_exclude :: "path \<Rightarrow> path \<Rightarrow> pystr set \<Rightarrow> bool" where
  "should_exclude p vault_root extra_excludes =
     (case relative_to p vault_root of
        Inl e \<Rightarrow> True
      | Inr rel_path \<Rightarrow>
          list_ex (\<lambda>part. startswith part (ustr ''.'') \<or> part \<in> DEFAULT_EXCLUDES \<union> extra_excludes)
            rel_path)"

text \<open>
  The loop over \<^verbatim>\<open>os.walk(vault_path)\<close>, top down: the files of a directory first, then
  the subdirectories that the assignment to \<^verbatim>\<open>dirs[:]\<close> keeps.
\<close>

fun walk_md :: "path \<Rightarrow> pystr set \<Rightarrow> path \<Rightarrow> dtree \<Rightarrow> path list" where
  "walk_md vault_root extra_excludes root_path (DTree dirs files) =
     [root_path @ [filename].
        filename \<leftarrow> files,
        \<not> (\<not> endswith filename (ustr ''.md'') \<or> startswith filename (ustr ''.'')),
        \<not> should_exclude (root_path @ [filename]) vault_root extra_excludes] @
     concat (map (\<lambda>(d, t).
                    if \<not> startswith d (ustr ''.'') \<and> d \<notin> DEFAULT_EXCLUDES \<union> extra_excludes
                    then walk_md vault_root extra_excludes (root_path @ [d]) t
                    else [])
                 dirs)"

definition find_markdown_files :: "path \<Rightarrow> pystr set \<Rightarrow> world \<Rightarrow> path list" where
  "find_markdown_files vault_root extra_excludes w =
     sort (walk_md vault_root extra_excludes vault_root (walk_view w vault_root))"

section \<open>The run\<close>

record conversion_summary =
  files_scanned :: nat
  files_changed :: nat
  total_replacements :: int
  errors :: "pystr list"

text \<open>Several \<^verbatim>\<open>print\<close> calls in a row; the first that raises ends them.\<close>

fun prints :: "pystr list \<Rightarrow> world \<Rightarrow> (py_exn + unit) \<times> world" where
  "prints [] w = (Inr (), w)"
| "prints (s # ss) w =
     (case print s w of
        (Inl e, w1) \<Rightarrow> (Inl e, w1)
      | (Inr u, w1) \<Rightarrow> prints ss w1)"


definition rule60 :: pystr where
  "rule60 = replicate 60 61"

text \<open>The loop \<^verbatim>\<open>for file_path in md_files: results.append(process_file(...))\<close>.\<close>

fun process_all ::
  "path list \<Rightarrow> path \<Rightarrow> bool \<Rightarrow> bool \<Rightarrow> bool \<Rightarrow> world \<Rightarrow> conversion_result list \<times> world" where
  "process_all [] vault_root dry_run create_backups verbose w = ([], w)"
| "process_all (p # ps) vault_root dry_run create_backups verbose w =
     (case process_file p vault_root dry_run create_backups verbose w of
        (r, w1) \<Rightarrow>
          (case process_all ps vault_root dry_run create_backups verbose w1 of
             (rs, w2) \<Rightarrow> (r # rs, w2)))"

text \<open>
  \<^verbatim>\<open>[f"{r.file_path}: {r.error}" for r in results if r.error]\<close>: a result counts when its
  error is neither \<^verbatim>\<open>None\<close> nor the empty string.
\<close>

definition error_lines :: "conversion_result list \<Rightarrow> pystr list" where
  "error_lines results =
     concat (map (\<lambda>r. case error r of
                         None \<Rightarrow> []
                       | Some e \<Rightarrow> if e = [] then [] else [str_path (file_path r) @ ustr '': '' @ e])
                 results)"

definition banner :: "path \<Rightarrow> bool \<Rightarrow> bool \<Rightarrow> pystr set \<Rightarrow> pystr list" where
  "banner vault_root dry_run create_backups extra_excludes =
     [NL # rule60, ustr ''Obsidian H1 '' @ [8594] @ ustr '' H2 Converter'', rule60,
      ustr ''Vault path: '' @ str_path vault_root,
      ustr ''Mode: '' @
        (if dry_run then ustr ''DRY RUN (no files will be modified)'' else ustr ''WRITE MODE'')] @
     (if \<not> dry_run
      then [ustr ''Backups: '' @ (if create_backups then ustr ''Enabled'' else ustr ''Disabled'')]
      else []) @
     (if extra_excludes \<noteq> {}
      then [ustr ''Extra excludes: '' @
              (case sorted_list_of_set extra_excludes of
                 [] \<Rightarrow> []
               | e # es \<Rightarrow> e @ concat (map (\<lambda>x. ustr '', '' @ x) es))]
      else []) @
     [rule60 @ [NL]]"

definition summary_lines ::
  "path \<Rightarrow> bool \<Rightarrow> bool \<Rightarrow> nat \<Rightarrow> nat \<Rightarrow> int \<Rightarrow> pystr list \<Rightarrow> pystr list" where
  "summary_lines vault_root dry_run create_backups scanned changed total_n errs =
     [NL # rule60, ustr ''SUMMARY'', rule60,
      ustr ''Files scanned:      '' @ str_nat scanned,
      ustr ''Files with H1s:     '' @ str_nat changed,
      ustr ''Total H1 headings:  '' @ str_int total_n] @
     (if dry_run \<and> 0 < changed then
        [[NL, 9888, 65039] @ ustr ''  DRY RUN: No files were modified.'',
         ustr ''   Run with --write to apply changes.'']
      else if \<not> dry_run \<and> 0 < changed then
        [[NL, 9989] @ ustr '' '' @ str_nat changed @ ustr '' file(s) modified.''] @
        (if create_backups
         then [ustr ''   Backups saved to: '' @ str_path (vault_root @ [ustr ''_backups''])]
         else [])
      else if changed = 0 then
        [[NL, 9989] @ ustr '' No H1 headings found. No changes needed.'']
      else []) @
     (if errs \<noteq> []
      then ([NL, 9888, 65039] @ ustr ''  Errors ('' @ str_nat (length errs) @ ustr ''):'') #
           map (\<lambda>err. ustr ''   - '' @ err) errs
      else []) @
     [rule60 @ [NL]]"

text \<open>
  \<^verbatim>\<open>run_conversion\<close>.  Its \<^verbatim>\<open>print\<close> calls are outside every \<^verbatim>\<open>try\<close>, so one that
  raises ends the function with that exception.
\<close>

definition run_conversion ::
  "path \<Rightarrow> bool \<Rightarrow> bool \<Rightarrow> bool \<Rightarrow> pystr set \<Rightarrow> world \<Rightarrow>
     (py_exn + conversion_summary) \<times> world" where
  "run_conversion vault_root dry_run create_backups verbose extra_excludes w =
     (case prints (banner vault_root dry_run create_backups extra_excludes) w of
        (Inl e, w1) \<Rightarrow> (Inl e, w1)
      | (Inr u, w1) \<Rightarrow>
          (let md_files = find_markdown_files vault_root extra_excludes w1 in
           case prints ((ustr ''Found '' @ str_nat (length md_files) @
                         ustr '' Markdown file(s) to scan.'' @ [NL]) #
                        (if verbose then [ustr ''Processing files:''] else [])) w1 of
             (Inl e, w3) \<Rightarrow> (Inl e, w3)
           | (Inr u, w3) \<Rightarrow>
               (case process_all md_files vault_root dry_run create_backups verbose w3 of
                  (results, w4) \<Rightarrow>
                    (let changed = length (filter (\<lambda>r. 0 < replacements r) results);
                         total_n = sum_list (map replacements results);
                         errs = error_lines results
                     in case prints (summary_lines vault_root dry_run create_backups
                                       (length md_files) changed total_n errs) w4 of
                          (Inl e, w5) \<Rightarrow> (Inl e, w5)
                        | (Inr u, w5) \<Rightarrow>
                            (Inr \<lparr>files_scanned = length md_files, files_changed = changed,
                                  total_replacements = total_n, errors = errs\<rparr>, w5)))))"


section \<open>The command line\<close>

text \<open>
  The arguments as \<^verbatim>\<open>argparse\<close> hands them over; \<open>arg_vault_path\<close> is
  \<^verbatim>\<open>Path(args.vault_path).resolve()\<close>.  (\<^verbatim>\<open>--backup\<close> and \<^verbatim>\<open>--dry-run\<close> are
  \<^verbatim>\<open>store_true\<close> flags with default \<^verbatim>\<open>True\<close>.)
\<close>

record args =
  arg_vault_path :: path
  arg_write :: bool
  arg_backup :: bool
  arg_no_backup :: bool
  arg_verbose :: bool
  arg_exclude :: pystr

fun split_comma :: "pystr \<Rightarrow> pystr list" where
  "split_comma [] = [[]]"
| "split_comma (c # cs) =
     (if c = 44 then [] # split_comma cs
      else (case split_comma cs of [] \<Rightarrow> [[c]] | l # ls \<Rightarrow> (c # l) # ls))"

definition parse_excludes :: "pystr \<Rightarrow> pystr set" where
  "parse_excludes exclude_str =
     (if exclude_str = [] then {}
      else set (filter (\<lambda>e. e \<noteq> []) (map strip (split_comma exclude_str))))"

text \<open>
  \<^verbatim>\<open>main\<close>: \<open>Inr\<close> is the value it returns, \<open>Inl\<close> an exception that leaves it.
  \<open>exit_status\<close> is \<^verbatim>\<open>sys.exit(main())\<close>: the value \<^verbatim>\<open>main\<close> returns, or 1 when an
  exception ends the interpreter.
\<close>

definition main :: "args \<Rightarrow> world \<Rightarrow> (py_exn + int) \<times> world" where
  "main a w =
     (let vault_root = arg_vault_path a in
      if fs w vault_root = None then
        (Inr 1, print_err ([10060] @ ustr '' Error: Vault path does not exist: '' @ str_path vault_root) w)
      else if fs w vault_root \<noteq> Some Dir then
        (Inr 1, print_err ([10060] @ ustr '' Error: Vault path is not a directory: '' @ str_path vault_root) w)
      else
        (let dry_run = \<not> arg_write a;
             create_backups = (arg_backup a \<and> \<not> arg_no_backup a);
             extra_excludes = parse_excludes (arg_exclude a)
         in case run_conversion vault_root dry_run create_backups (arg_verbose a) extra_excludes w of
              (Inl e, w') \<Rightarrow> (Inl e, w')
            | (Inr summary, w') \<Rightarrow> (Inr (if errors summary \<noteq> [] then 1 else 0), w')))"

definition exit_status :: "args \<Rightarrow> world \<Rightarrow> int" where
  "exit_status a w = (case fst (main a w) of Inl e \<Rightarrow> 1 | Inr code \<Rightarrow> code)"

section \<open>Example worlds\<close>

text \<open>
  A vault \<open>/v\<close> with one file \<open>/v/a.md\<close>, last read at time 1, on a system whose clock
  shows 2, that sets access times, has room for any file and can print every character;
  the refusals of the operating system that the examples use; and the command line of a
  run.  \<open>run_results\<close> is the list \<^verbatim>\<open>results\<close> that \<^verbatim>\<open>run_conversion\<close> builds when
  \<^verbatim>\<open>main\<close> calls it, empty when a \<^verbatim>\<open>print\<close> before the loop raises.
\<close>

definition demo_vault :: path where
  "demo_vault = [ustr ''v'']"

definition demo_file :: path where
  "demo_file = [ustr ''v'', ustr ''a.md'']"

definition refuse_nothing :: "sys_op \<Rightarrow> path \<Rightarrow> bool" where
  "refuse_nothing op q \<longleftrightarrow> False"

definition refuse_write_and_unlink :: "sys_op \<Rightarrow> path \<Rightarrow> bool" where
  "refuse_write_and_unlink op q \<longleftrightarrow> op = OpWrite \<or> op = OpUnlink"




definition demo_temp :: path where
  "demo_temp = [ustr ''v'', ustr ''.a.md_x1.tmp'']"

definition demo_world :: "byte list \<Rightarrow> (sys_op \<Rightarrow> path \<Rightarrow> bool) \<Rightarrow> world" where
  "demo_world bs d =
     \<lparr>fs = [demo_vault \<mapsto> Dir, demo_file \<mapsto> File bs 1], history = [], stdout = [], stderr = [],
      denied = d, short_write = 1, tmp_names = [ustr ''x1''], now_stamp = ustr ''20240101_000000'',
      now_meta = 2, walk_view = (\<lambda>p. DTree [] [ustr ''a.md'']),
      atime = (\<lambda>q. 1), updates_atime = (\<lambda>q. True), memory = 1000000,
      stdout_encodes = (\<lambda>c. True)\<rparr>"

definition run_results :: "args \<Rightarrow> world \<Rightarrow> conversion_result list" where
  "run_results a w =
     (let vault_root = arg_vault_path a;
          dry_run = \<not> arg_write a;
          create_backups = (arg_backup a \<and> \<not> arg_no_backup a);
          extra_excludes = parse_excludes (arg_exclude a)
      in case prints (banner vault_root dry_run create_backups extra_excludes) w of
           (Inl e, w1) \<Rightarrow> []
         | (Inr u, w1) \<Rightarrow>
             (let md_files = find_markdown_files vault_root extra_excludes w1 in
              case prints ((ustr ''Found '' @ str_nat (length md_files) @
                            ustr '' Markdown file(s) to scan.'' @ [NL]) #
                           (if arg_verbose a then [ustr ''Processing files:''] else [])) w1 of
                (Inl e, w3) \<Rightarrow> []
              | (Inr u, w3) \<Rightarrow>
                  fst (process_all md_files vault_root dry_run create_backups (arg_verbose a) w3)))"

definition demo_args :: "path \<Rightarrow> bool \<Rightarrow> args" where
  "demo_args v wr =
     \<lparr>arg_vault_path = v, arg_write = wr, arg_backup = True, arg_no_backup = False,
      arg_verbose = False, arg_exclude = []\<rparr>"

section \<open>Lines, splitting and joining\<close>


lemma ustr_simps:
  "ustr ''---'' = [45, 45, 45]" "ustr ''```'' = [96, 96, 96]" "ustr ''~~~'' = [126, 126, 126]"
  "ustr ''## '' = [35, 35, 32]" "ustr ''##'' = [35, 35]"
  by (simp_all add: ustr_def)

lemma split_nl_nonempty: "split_nl s \<noteq> []"
  by (induction s) (auto split: list.splits)

lemma split_nl_no_nl: "l \<in> set (split_nl s) \<Longrightarrow> NL \<notin> set l"
  by (induction s arbitrary: l) (auto split: list.splits if_splits)

lemma split_nl_append_line:
  "NL \<notin> set l \<Longrightarrow> split_nl (l @ NL # s) = l # split_nl s"
  by (induction l) (auto split: list.splits)

lemma split_nl_single: "NL \<notin> set l \<Longrightarrow> split_nl l = [l]"
  by (induction l) (auto split: list.splits)

lemma split_join_nl:
  "ls \<noteq> [] \<Longrightarrow> \<forall>l\<in>set ls. NL \<notin> set l \<Longrightarrow> split_nl (join_nl ls) = ls"
  by (induction ls rule: join_nl.induct) (auto simp: split_nl_single split_nl_append_line)

lemma join_split_nl: "join_nl (split_nl s) = s"
proof (induction s)
  case Nil
  show ?case by simp
next
  case (Cons c s)
  obtain l ls where sp: "split_nl s = l # ls"
    using split_nl_nonempty [of s] by (cases "split_nl s") auto
  show ?case
  proof (cases "c = NL")
    case True
    with Cons sp show ?thesis by simp
  next
    case False
    with Cons sp show ?thesis by (cases ls) auto
  qed
qed

lemma h1_match_shape:
  "h1_match line = Some (sp, rest) \<Longrightarrow>
     set sp \<subseteq> {SP} \<and> length sp \<le> 3 \<and> NL \<notin> set rest \<and>
     (line = sp @ [HASH, SP] @ rest \<or> line = sp @ [HASH, SP] @ rest @ [NL])"
proof -
  assume m: "h1_match line = Some (sp, rest)"
  let ?after = "dropWhile (\<lambda>c. c = SP) line"
  let ?text = "drop 2 ?after"
  from m have sp: "sp = takeWhile (\<lambda>c. c = SP) line" and len: "length sp \<le> 3"
    and st: "startswith ?after [HASH, SP]"
    and rest: "rest = takeWhile (\<lambda>c. c \<noteq> NL) ?text"
    and tail: "dropWhile (\<lambda>c. c \<noteq> NL) ?text = [] \<or> dropWhile (\<lambda>c. c \<noteq> NL) ?text = [NL]"
    by (auto simp: h1_match_def Let_def split: if_splits)
  have spaces: "set sp \<subseteq> {SP}"
    unfolding sp by (auto dest: set_takeWhileD)
  have nonl: "NL \<notin> set rest"
    unfolding rest by (auto dest: set_takeWhileD)
  have "take 2 ?after = [HASH, SP]"
    using st by (simp add: startswith_def numeral_2_eq_2)
  then have after: "?after = [HASH, SP] @ ?text"
    using append_take_drop_id [of 2 ?after] by metis
  have line_eq: "line = sp @ ?after"
    unfolding sp by simp
  have text_eq: "?text = rest @ dropWhile (\<lambda>c. c \<noteq> NL) ?text"
    unfolding rest by simp
  have "?text = rest \<or> ?text = rest @ [NL]"
  proof (rule disjE [OF tail])
    assume "dropWhile (\<lambda>c. c \<noteq> NL) ?text = []"
    with text_eq show ?thesis by simp
  next
    assume "dropWhile (\<lambda>c. c \<noteq> NL) ?text = [NL]"
    with text_eq show ?thesis by simp
  qed
  then have "line = sp @ [HASH, SP] @ rest \<or> line = sp @ [HASH, SP] @ rest @ [NL]"
    using line_eq after by metis
  with spaces len nonl show ?thesis by simp
qed

lemma h1_match_intro:
  assumes "set sp \<subseteq> {SP}" "length sp \<le> 3" "NL \<notin> set rest"
  shows "h1_match (sp @ [HASH, SP] @ rest) = Some (sp, rest)"
proof -
  have all: "\<And>x. x \<in> set sp \<Longrightarrow> x = SP" using assms(1) by auto
  have tw: "takeWhile (\<lambda>c. c = SP) (sp @ [HASH, SP] @ rest) = sp"
    using all by (simp add: takeWhile_append2 HASH_def SP_def)
  have dw: "dropWhile (\<lambda>c. c = SP) (sp @ [HASH, SP] @ rest) = [HASH, SP] @ rest"
    using all by (simp add: dropWhile_append2 HASH_def SP_def)
  have r: "takeWhile (\<lambda>c. c \<noteq> NL) rest = rest" "dropWhile (\<lambda>c. c \<noteq> NL) rest = []"
    using assms(3) by (auto simp: takeWhile_eq_all_conv)
  show ?thesis
    unfolding h1_match_def tw dw using assms(2) r by (simp add: startswith_def)
qed

lemma for_lines_append:
  "for_lines i (xs @ ys) st =
     (case for_lines i xs st of Inl e \<Rightarrow> Inl e | Inr st' \<Rightarrow> for_lines (i + length xs) ys st')"
  by (induction xs arbitrary: i st) (auto split: sum.splits)

lemma reach_initial: "reach 0 initial_state"
  by (simp add: reach_def fence_ok_def initial_state_def)

lemma h1_match_no_nl:
  "h1_match line = Some (sp, rest) \<Longrightarrow> NL \<notin> set (sp @ ustr ''## '' @ rest)"
  using h1_match_shape [of line sp rest] by (auto simp: ustr_simps NL_def SP_def)

lemma loop_body_fm_open:
  "i = 0 \<Longrightarrow> strip line = ustr ''---'' \<Longrightarrow>
     loop_body i line st = Inr (append_line line (st\<lparr>in_frontmatter := True\<rparr>))"
  by (simp add: loop_body_def)

lemma loop_body_fm_inside:
  "0 < i \<or> strip line \<noteq> ustr ''---'' \<Longrightarrow> in_frontmatter st \<Longrightarrow>
     loop_body i line st =
       Inr (if strip line = ustr ''---'' then (append_line line st)\<lparr>in_frontmatter := False\<rparr>
            else append_line line st)"
  by (auto simp: loop_body_def Let_def)

lemma loop_body_fence_open_backtick:
  "0 < i \<or> strip line \<noteq> ustr ''---'' \<Longrightarrow> \<not> in_frontmatter st \<Longrightarrow> \<not> in_code_block st \<Longrightarrow>
   startswith (lstrip line) (ustr ''```'') \<Longrightarrow>
     loop_body i line st =
       Inr (append_line line (st\<lparr>in_code_block := True, code_fence_pattern := Some (ustr ''```'')\<rparr>))"
  by (auto simp: loop_body_def Let_def)

lemma loop_body_fence_open_tilde:
  "0 < i \<or> strip line \<noteq> ustr ''---'' \<Longrightarrow> \<not> in_frontmatter st \<Longrightarrow> \<not> in_code_block st \<Longrightarrow>
   \<not> startswith (lstrip line) (ustr ''```'') \<Longrightarrow> startswith (lstrip line) (ustr ''~~~'') \<Longrightarrow>
     loop_body i line st =
       Inr (append_line line (st\<lparr>in_code_block := True, code_fence_pattern := Some (ustr ''~~~'')\<rparr>))"
  by (auto simp: loop_body_def Let_def)

lemma loop_body_fenced:
  "0 < i \<or> strip line \<noteq> ustr ''---'' \<Longrightarrow> \<not> in_frontmatter st \<Longrightarrow> in_code_block st \<Longrightarrow>
   code_fence_pattern st = Some pat \<Longrightarrow>
     loop_body i line st =
       Inr (append_line line
             (if startswith (lstrip line) pat
              then st\<lparr>in_code_block := False, code_fence_pattern := None\<rparr> else st))"
  by (auto simp: loop_body_def Let_def)

lemma loop_body_normal:
  "0 < i \<or> strip line \<noteq> ustr ''---'' \<Longrightarrow> \<not> in_frontmatter st \<Longrightarrow> \<not> in_code_block st \<Longrightarrow>
   \<not> startswith (lstrip line) (ustr ''```'') \<Longrightarrow> \<not> startswith (lstrip line) (ustr ''~~~'') \<Longrightarrow>
     loop_body i line st =
       (case h1_match line of
          Some (leading_spaces, rest_of_line) \<Rightarrow>
            Inr ((append_line (leading_spaces @ ustr ''## '' @ rest_of_line) st)
                   \<lparr>replacement_count := replacement_count st + 1\<rparr>)
        | None \<Rightarrow> Inr (append_line line st))"
  by (auto simp: loop_body_def Let_def)

lemma loop_body_total:
  "fence_ok st \<Longrightarrow> \<exists>st'. loop_body i line st = Inr st'"
  by (auto simp: loop_body_def fence_ok_def Let_def split: option.splits if_splits)

lemma loop_body_props:
  assumes r: "reach i st" and lb: "loop_body i line st = Inr st'"
  shows "reach (Suc i) st' \<and> (\<exists>l. result_lines st' = result_lines st @ [l] \<and> (NL \<in> set l \<longrightarrow> NL \<in> set line))"
proof (cases "i = 0 \<and> strip line = ustr ''---''")
  case True
  with r lb show ?thesis
    by (auto simp: loop_body_fm_open reach_def fence_ok_def append_line_def)
next
  case nopen: False
  then have c0: "0 < i \<or> strip line \<noteq> ustr ''---''" by auto
  show ?thesis
  proof (cases "in_frontmatter st")
    case True
    with r lb c0 show ?thesis
      by (auto simp: loop_body_fm_inside reach_def fence_ok_def append_line_def split: if_splits)
  next
    case nfm: False
    show ?thesis
    proof (cases "in_code_block st")
      case True
      with r obtain pat where "code_fence_pattern st = Some pat"
        by (auto simp: reach_def fence_ok_def)
      with r lb c0 nfm True show ?thesis
        by (auto simp: loop_body_fenced reach_def fence_ok_def append_line_def split: if_splits)
    next
      case ncb: False
      show ?thesis
      proof (cases "startswith (lstrip line) (ustr ''```'')")
        case True
        with r lb c0 nfm ncb show ?thesis
          by (auto simp: loop_body_fence_open_backtick reach_def fence_ok_def append_line_def)
      next
        case nbt: False
        show ?thesis
        proof (cases "startswith (lstrip line) (ustr ''~~~'')")
          case True
          with r lb c0 nfm ncb nbt show ?thesis
            by (auto simp: loop_body_fence_open_tilde reach_def fence_ok_def append_line_def)
        next
          case False
          with r lb c0 nfm ncb nbt h1_match_no_nl [of line] show ?thesis
            by (auto simp: loop_body_normal reach_def fence_ok_def append_line_def
                     split: option.splits)
        qed
      qed
    qed
  qed
qed

lemma loop_body_reach:
  assumes "reach i st"
  shows "\<exists>st' l. loop_body i line st = Inr st' \<and> reach (Suc i) st' \<and>
           result_lines st' = result_lines st @ [l] \<and> (NL \<in> set l \<longrightarrow> NL \<in> set line)"
proof -
  from assms obtain st' where "loop_body i line st = Inr st'"
    using loop_body_total [of st i line] by (auto simp: reach_def)
  with loop_body_props [OF assms this] show ?thesis by blast
qed

lemma for_lines_reach:
  assumes "reach i st" "\<forall>l\<in>set ls. NL \<notin> set l"
  shows "\<exists>st' outs. for_lines i ls st = Inr st' \<and> reach (i + length ls) st' \<and>
           result_lines st' = result_lines st @ outs \<and> length outs = length ls \<and>
           (\<forall>l\<in>set outs. NL \<notin> set l)"
  using assms
proof (induction ls arbitrary: i st)
  case Nil
  then show ?case by simp
next
  case (Cons line ls)
  from loop_body_reach [OF Cons.prems(1), of line] obtain st1 l where
    s1: "loop_body i line st = Inr st1" "reach (Suc i) st1"
      "result_lines st1 = result_lines st @ [l]" "NL \<in> set l \<longrightarrow> NL \<in> set line"
    by blast
  from Cons.prems(2) have "\<forall>l\<in>set ls. NL \<notin> set l" by simp
  from Cons.IH [OF s1(2) this] obtain st' outs where
    s2: "for_lines (Suc i) ls st1 = Inr st'" "reach (Suc i + length ls) st'"
      "result_lines st' = result_lines st1 @ outs" "length outs = length ls"
      "\<forall>l\<in>set outs. NL \<notin> set l"
    by blast
  from Cons.prems(2) s1(4) have "NL \<notin> set l" by auto
  with s1 s2 show ?case
    by (intro exI [of _ st'] exI [of _ "l # outs"]) simp
qed

lemma trace_step:
  assumes i: "i < length (split_nl content)"
  shows "\<exists>st st' stN new_content.
           state_before content i = Inr st \<and> state_before content (Suc i) = Inr st' \<and>
           state_before content (length (split_nl content)) = Inr stN \<and>
           loop_body i (split_nl content ! i) st = Inr st' \<and> reach i st \<and>
           convert_h1_to_h2 content = Inr (new_content, replacement_count stN) \<and>
           length (split_nl new_content) = length (split_nl content) \<and>
           result_lines st' = result_lines st @ [split_nl new_content ! i]"
proof -
  let ?ls = "split_nl content"
  have nonl: "\<forall>l\<in>set ?ls. NL \<notin> set l"
    using split_nl_no_nl by blast
  then have nonl1: "\<forall>l\<in>set (take i ?ls). NL \<notin> set l"
    and nonl2: "\<forall>l\<in>set (drop (Suc i) ?ls). NL \<notin> set l"
    by (auto dest: in_set_takeD in_set_dropD)
  from for_lines_reach [OF reach_initial nonl1] obtain st outs0 where
    a: "for_lines 0 (take i ?ls) initial_state = Inr st" "reach (0 + length (take i ?ls)) st"
       "result_lines st = result_lines initial_state @ outs0" "\<forall>l\<in>set outs0. NL \<notin> set l"
    by blast
  from a(2) i have r: "reach i st" by simp
  then have len0: "length (result_lines st) = i" by (simp add: reach_def)
  from loop_body_reach [OF r, of "?ls ! i"] obtain st' l where
    b: "loop_body i (?ls ! i) st = Inr st'" "reach (Suc i) st'"
       "result_lines st' = result_lines st @ [l]" "NL \<in> set l \<longrightarrow> NL \<in> set (?ls ! i)"
    by blast
  from i nonl have "NL \<notin> set (?ls ! i)" by simp
  with b(4) have lnl: "NL \<notin> set l" by blast
  from for_lines_reach [OF b(2) nonl2] obtain stN outs2 where
    c: "for_lines (Suc i) (drop (Suc i) ?ls) st' = Inr stN"
       "result_lines stN = result_lines st' @ outs2" "length outs2 = length (drop (Suc i) ?ls)"
       "\<forall>l\<in>set outs2. NL \<notin> set l"
    by blast
  have tk: "take (Suc i) ?ls = take i ?ls @ [?ls ! i]"
    using i by (simp add: take_Suc_conv_app_nth)
  have s1: "for_lines 0 (take (Suc i) ?ls) initial_state = Inr st'"
    unfolding tk for_lines_append using a(1) b(1) i by simp
  have "for_lines 0 (take (Suc i) ?ls @ drop (Suc i) ?ls) initial_state = Inr stN"
    unfolding for_lines_append using s1 c(1) i by simp
  then have whole: "for_lines 0 ?ls initial_state = Inr stN" by simp
  have res: "result_lines stN = result_lines st @ l # outs2"
    using b(3) c(2) by simp
  have resnl: "\<forall>x\<in>set (result_lines stN). NL \<notin> set x"
    using a(3,4) lnl c(4) res by (auto simp: initial_state_def)
  have "result_lines stN \<noteq> []" using res by simp
  then have sj: "split_nl (join_nl (result_lines stN)) = result_lines stN"
    using resnl by (rule split_join_nl)
  have conv: "convert_h1_to_h2 content = Inr (join_nl (result_lines stN), replacement_count stN)"
    by (simp add: convert_h1_to_h2_def whole)
  have lenN: "length (result_lines stN) = length ?ls"
    using res len0 c(3) i by simp
  have nth: "result_lines stN ! i = l"
    using res len0 by (simp add: nth_append)
  show ?thesis
    using a(1) s1 whole b(1) r conv sj lenN nth b(3)
    by (intro exI [of _ st] exI [of _ st'] exI [of _ stN] exI [of _ "join_nl (result_lines stN)"])
       (simp add: state_before_def)
qed


lemma rstrip_Cons: "\<not> is_space x \<Longrightarrow> rstrip (x # xs) = x # rstrip xs"
  by (simp add: rstrip_def dropWhile_append)

lemma lstrip_spaces:
  assumes "set sp \<subseteq> {SP}" "\<not> is_space x"
  shows "lstrip (sp @ x # xs) = x # xs"
proof -
  have "\<And>c. c \<in> set sp \<Longrightarrow> is_space c"
    using assms(1) by (auto simp: is_space_def SP_def)
  then show ?thesis
    using assms(2) by (simp add: lstrip_def dropWhile_append2)
qed

lemma hash_not_space: "\<not> is_space HASH"
  by (simp add: is_space_def HASH_def)

lemma heading_not_opener:
  assumes "set sp \<subseteq> {SP}"
  shows "strip (sp @ HASH # xs) \<noteq> ustr ''---''"
    and "\<not> startswith (lstrip (sp @ HASH # xs)) (ustr ''```'')"
    and "\<not> startswith (lstrip (sp @ HASH # xs)) (ustr ''~~~'')"
proof -
  have l: "lstrip (sp @ HASH # xs) = HASH # xs"
    by (rule lstrip_spaces [OF assms hash_not_space])
  have "strip (sp @ HASH # xs) = HASH # rstrip xs"
    by (simp add: strip_def l rstrip_Cons hash_not_space)
  then show "strip (sp @ HASH # xs) \<noteq> ustr ''---''"
    by (simp add: ustr_simps HASH_def)
  show "\<not> startswith (lstrip (sp @ HASH # xs)) (ustr ''```'')"
    and "\<not> startswith (lstrip (sp @ HASH # xs)) (ustr ''~~~'')"
    unfolding l by (simp_all add: startswith_def ustr_simps HASH_def)
qed

lemma fence_not_frontmatter:
  assumes "startswith (lstrip line) (ustr ''```'') \<or> startswith (lstrip line) (ustr ''~~~'')"
  shows "strip line \<noteq> ustr ''---''"
proof -
  from assms obtain c xs where l: "lstrip line = c # xs" and c: "c = 96 \<or> c = 126"
    by (cases "lstrip line") (auto simp: startswith_def ustr_simps)
  from c have "\<not> is_space c" by (auto simp: is_space_def)
  then have "strip line = c # rstrip xs"
    by (simp add: strip_def l rstrip_Cons)
  with c show ?thesis by (auto simp: ustr_simps)
qed

lemma h1_match_hash_nonspace:
  assumes "set sp \<subseteq> {SP}" "c \<noteq> SP"
  shows "h1_match (sp @ [HASH, c] @ rest) = None"
proof -
  have all: "\<And>x. x \<in> set sp \<Longrightarrow> x = SP" using assms(1) by auto
  have dw: "dropWhile (\<lambda>c. c = SP) (sp @ [HASH, c] @ rest) = [HASH, c] @ rest"
    using all by (simp add: dropWhile_append2 HASH_def SP_def)
  show ?thesis
    unfolding h1_match_def dw using assms(2) by (simp add: startswith_def)
qed

lemma h1_match_four_spaces: "h1_match (replicate 4 SP @ rest) = None"
proof -
  have "takeWhile (\<lambda>c. c = SP) (replicate 4 SP @ rest) = replicate 4 SP @ takeWhile (\<lambda>c. c = SP) rest"
    by (rule takeWhile_append2) simp
  then show ?thesis
    by (simp add: h1_match_def)
qed

lemma loop_body_cases [case_names fm_open fm_inside fenced open_backtick open_tilde normal]:
  obtains "(i::nat) = 0" "strip line = ustr ''---''"
  | "0 < i \<or> strip line \<noteq> ustr ''---''" "in_frontmatter st"
  | "0 < i \<or> strip line \<noteq> ustr ''---''" "\<not> in_frontmatter st" "in_code_block st"
  | "0 < i \<or> strip line \<noteq> ustr ''---''" "\<not> in_frontmatter st" "\<not> in_code_block st"
      "startswith (lstrip line) (ustr ''```'')"
  | "0 < i \<or> strip line \<noteq> ustr ''---''" "\<not> in_frontmatter st" "\<not> in_code_block st"
      "\<not> startswith (lstrip line) (ustr ''```'')" "startswith (lstrip line) (ustr ''~~~'')"
  | "0 < i \<or> strip line \<noteq> ustr ''---''" "\<not> in_frontmatter st" "\<not> in_code_block st"
      "\<not> startswith (lstrip line) (ustr ''```'')" "\<not> startswith (lstrip line) (ustr ''~~~'')"
proof (cases "i = 0 \<and> strip line = ustr ''---''")
  case True
  then show thesis using that(1) by simp
next
  case False
  then have "0 < i \<or> strip line \<noteq> ustr ''---''" by auto
  then show thesis using that(2-) by blast
qed

lemma loop_body_fenced_any:
  assumes "0 < i \<or> strip line \<noteq> ustr ''---''" "\<not> in_frontmatter st" "in_code_block st"
    and "loop_body i line st = Inr st'"
  shows "\<exists>pat. code_fence_pattern st = Some pat"
  using assms by (cases "code_fence_pattern st") (auto simp: loop_body_def Let_def)

lemma loop_body_unchanged:
  assumes lb: "loop_body i line st = Inr st'"
    and u: "h1_match line = None \<or> in_frontmatter st \<or> in_code_block st \<or>
         in_frontmatter st' \<or> in_code_block st'"
  shows "result_lines st' = result_lines st @ [line] \<and> replacement_count st' = replacement_count st"
proof (cases rule: loop_body_cases [where i = i and line = line and st = st])
  case fm_open
  with lb show ?thesis by (auto simp: loop_body_fm_open append_line_def)
next
  case fm_inside
  with lb show ?thesis by (auto simp: loop_body_fm_inside append_line_def split: if_splits)
next
  case fenced
  with lb obtain pat where "code_fence_pattern st = Some pat"
    using loop_body_fenced_any by blast
  with lb fenced show ?thesis
    by (auto simp: loop_body_fenced append_line_def split: if_splits)
next
  case open_backtick
  with lb show ?thesis by (auto simp: loop_body_fence_open_backtick append_line_def)
next
  case open_tilde
  with lb show ?thesis by (auto simp: loop_body_fence_open_tilde append_line_def)
next
  case normal
  with lb u show ?thesis
    by (auto simp: loop_body_normal append_line_def split: option.splits)
qed

lemma loop_body_heading:
  assumes "loop_body i line st = Inr st'" "\<not> in_frontmatter st" "\<not> in_code_block st"
    and "set sp \<subseteq> {SP}" "length sp \<le> 3" "NL \<notin> set line" "line = sp @ [HASH, SP] @ rest"
  shows "result_lines st' = result_lines st @ [sp @ [HASH, HASH, SP] @ rest] \<and>
         replacement_count st' = replacement_count st + 1"
proof -
  from assms(6,7) have "NL \<notin> set rest" by simp
  then have m: "h1_match line = Some (sp, rest)"
    unfolding assms(7) using assms(4,5) by (intro h1_match_intro)
  have no: "0 < i \<or> strip line \<noteq> ustr ''---''"
    "\<not> startswith (lstrip line) (ustr ''```'')" "\<not> startswith (lstrip line) (ustr ''~~~'')"
    unfolding assms(7) using heading_not_opener [OF assms(4), of "SP # rest"] by simp_all
  from assms(1) show ?thesis
    unfolding loop_body_normal [OF no(1) assms(2,3) no(2,3)] m
    by (auto simp: append_line_def ustr_simps HASH_def SP_def)
qed

lemma loop_body_frontmatter_flag:
  assumes r: "reach i st" and lb: "loop_body i line st = Inr st'"
  shows "in_frontmatter st' \<longleftrightarrow>
           (i = 0 \<and> strip line = ustr ''---'') \<or> (in_frontmatter st \<and> strip line \<noteq> ustr ''---'')"
proof (cases rule: loop_body_cases [where i = i and line = line and st = st])
  case fm_open
  with lb show ?thesis by (auto simp: loop_body_fm_open append_line_def)
next
  case fm_inside
  with lb r show ?thesis
    by (auto simp: loop_body_fm_inside append_line_def reach_def split: if_splits)
next
  case fenced
  with lb obtain pat where "code_fence_pattern st = Some pat"
    using loop_body_fenced_any by blast
  with lb fenced show ?thesis
    by (auto simp: loop_body_fenced append_line_def split: if_splits)
next
  case open_backtick
  with lb show ?thesis by (auto simp: loop_body_fence_open_backtick append_line_def)
next
  case open_tilde
  with lb show ?thesis by (auto simp: loop_body_fence_open_tilde append_line_def)
next
  case normal
  with lb show ?thesis
    by (auto simp: loop_body_normal append_line_def split: option.splits)
qed

lemma loop_body_fence_flags:
  assumes r: "reach i st" and lb: "loop_body i line st = Inr st'"
  shows "(\<not> in_frontmatter st \<and> \<not> in_code_block st \<and> startswith (lstrip line) (ustr ''```'') \<longrightarrow>
            in_code_block st' \<and> code_fence_pattern st' = Some (ustr ''```''))"
    and "(\<not> in_frontmatter st \<and> \<not> in_code_block st \<and> startswith (lstrip line) (ustr ''~~~'') \<longrightarrow>
            in_code_block st' \<and> code_fence_pattern st' = Some (ustr ''~~~''))"
    and "in_code_block st \<longrightarrow>
           (\<exists>m. code_fence_pattern st = Some m \<and> (m = ustr ''```'' \<or> m = ustr ''~~~'') \<and>
                (if startswith (lstrip line) m then \<not> in_code_block st'
                 else in_code_block st' \<and> code_fence_pattern st' = Some m))"
proof -
  have bt_tl: "\<not> (startswith (lstrip line) (ustr ''```'') \<and> startswith (lstrip line) (ustr ''~~~''))"
    by (auto simp: startswith_def ustr_simps)
  show "(\<not> in_frontmatter st \<and> \<not> in_code_block st \<and> startswith (lstrip line) (ustr ''```'') \<longrightarrow>
            in_code_block st' \<and> code_fence_pattern st' = Some (ustr ''```''))"
    using lb fence_not_frontmatter [of line]
    by (auto simp: loop_body_fence_open_backtick append_line_def)
  show "(\<not> in_frontmatter st \<and> \<not> in_code_block st \<and> startswith (lstrip line) (ustr ''~~~'') \<longrightarrow>
            in_code_block st' \<and> code_fence_pattern st' = Some (ustr ''~~~''))"
    using lb fence_not_frontmatter [of line] bt_tl
    by (auto simp: loop_body_fence_open_tilde append_line_def)
  show "in_code_block st \<longrightarrow>
           (\<exists>m. code_fence_pattern st = Some m \<and> (m = ustr ''```'' \<or> m = ustr ''~~~'') \<and>
                (if startswith (lstrip line) m then \<not> in_code_block st'
                 else in_code_block st' \<and> code_fence_pattern st' = Some m))"
  proof
    assume cb: "in_code_block st"
    with r have i: "0 < i" and nfm: "\<not> in_frontmatter st"
      and m: "code_fence_pattern st = Some (ustr ''```'') \<or> code_fence_pattern st = Some (ustr ''~~~'')"
      by (auto simp: reach_def fence_ok_def)
    then obtain m where mm: "code_fence_pattern st = Some m" "m = ustr ''```'' \<or> m = ustr ''~~~''"
      by auto
    from i have "0 < i \<or> strip line \<noteq> ustr ''---''" by simp
    from lb [unfolded loop_body_fenced [OF this nfm cb mm(1)]] cb mm
    show "\<exists>m. code_fence_pattern st = Some m \<and> (m = ustr ''```'' \<or> m = ustr ''~~~'') \<and>
                (if startswith (lstrip line) m then \<not> in_code_block st'
                 else in_code_block st' \<and> code_fence_pattern st' = Some m)"
      by (auto simp: append_line_def split: if_splits)
  qed
qed


lemmas transform_eval =
  state_before_def convert_h1_to_h2_def loop_body_def h1_match_def append_line_def initial_state_def
  strip_def lstrip_def rstrip_def startswith_def is_space_def ustr_def NL_def SP_def HASH_def Let_def

lemma state_before_0: "state_before content 0 = Inr initial_state"
  by (simp add: state_before_def)


lemma trace_step_at:
  assumes "i < length (split_nl content)"
  shows "convert_h1_to_h2 content = Inr (join_nl (output_lines content), reported_count content)"
    and "length (output_lines content) = length (split_nl content)"
    and "state_before content i = Inr (state_at content i)"
    and "state_before content (Suc i) = Inr (state_at content (Suc i))"
    and "state_at content 0 = initial_state"
    and "reported_count content = replacement_count (state_at content (length (split_nl content)))"
    and "loop_body i (split_nl content ! i) (state_at content i) = Inr (state_at content (Suc i))"
    and "reach i (state_at content i)"
    and "result_lines (state_at content (Suc i)) =
           result_lines (state_at content i) @ [output_lines content ! i]"
proof -
  from trace_step [OF assms] obtain st st' stN new_content where
    t: "state_before content i = Inr st" "state_before content (Suc i) = Inr st'"
       "state_before content (length (split_nl content)) = Inr stN"
       "loop_body i (split_nl content ! i) st = Inr st'" "reach i st"
       "convert_h1_to_h2 content = Inr (new_content, replacement_count stN)"
       "length (split_nl new_content) = length (split_nl content)"
       "result_lines st' = result_lines st @ [split_nl new_content ! i]"
    by blast
  have sa: "state_at content i = st" "state_at content (Suc i) = st'"
    "state_at content (length (split_nl content)) = stN"
    by (simp_all add: state_at_def t)
  have ol: "output_lines content = split_nl new_content"
    and rc: "reported_count content = replacement_count stN"
    by (simp_all add: output_lines_def reported_count_def t)
  show "convert_h1_to_h2 content = Inr (join_nl (output_lines content), reported_count content)"
    by (simp add: ol rc t join_split_nl)
  show "length (output_lines content) = length (split_nl content)"
    by (simp add: ol t)
  show "state_before content i = Inr (state_at content i)"
    and "state_before content (Suc i) = Inr (state_at content (Suc i))"
    by (simp_all add: sa t)
  show "state_at content 0 = initial_state"
    by (simp add: state_at_def state_before_0)
  show "reported_count content = replacement_count (state_at content (length (split_nl content)))"
    by (simp add: sa rc)
  show "loop_body i (split_nl content ! i) (state_at content i) = Inr (state_at content (Suc i))"
    and "reach i (state_at content i)"
    and "result_lines (state_at content (Suc i)) =
           result_lines (state_at content i) @ [output_lines content ! i]"
    using t by (simp_all add: sa ol)
qed

section \<open>Claims about the heading transform\<close>

text \<open>
  Claim C1.  Let line \<open>i\<close> of the input be read in a state with \<open>in_frontmatter\<close> and
  \<open>in_code_block\<close> both false.  If the line is zero to three spaces, one \<open>#\<close>, one space and
  any remaining text, then line \<open>i\<close> of the output is the same spaces, \<open>##\<close>, a space and the
  same text, and the counter grows by one at this line.  In every state, a line whose \<open>#\<close>
  (after leading spaces) is followed by a character other than a space (a second \<open>#\<close>
  included), and a line with four or more leading spaces, is emitted unchanged and the counter
  keeps its value.  The counter starts at \<open>0\<close> and its value after the last line is the
  count returned.
\<close>

theorem heading1_lines_converted:
  assumes "i < length (split_nl content)"
  shows "convert_h1_to_h2 content = Inr (join_nl (output_lines content), reported_count content) \<and>
     length (output_lines content) = length (split_nl content) \<and>
     state_before content i = Inr (state_at content i) \<and>
     state_before content (Suc i) = Inr (state_at content (Suc i)) \<and>
     state_at content 0 = initial_state \<and>
     reported_count content = replacement_count (state_at content (length (split_nl content))) \<and>
     (\<forall>sp rest.
        \<not> in_frontmatter (state_at content i) \<and> \<not> in_code_block (state_at content i) \<and>
        set sp \<subseteq> {SP} \<and> length sp \<le> 3 \<and> split_nl content ! i = sp @ [HASH, SP] @ rest \<longrightarrow>
        output_lines content ! i = sp @ [HASH, HASH, SP] @ rest \<and>
        replacement_count (state_at content (Suc i)) = replacement_count (state_at content i) + 1) \<and>
     (\<forall>sp c rest.
        set sp \<subseteq> {SP} \<and> c \<noteq> SP \<and> split_nl content ! i = sp @ [HASH, c] @ rest \<longrightarrow>
        output_lines content ! i = split_nl content ! i \<and>
        replacement_count (state_at content (Suc i)) = replacement_count (state_at content i)) \<and>
     (\<forall>rest.
        split_nl content ! i = replicate 4 SP @ rest \<longrightarrow>
        output_lines content ! i = split_nl content ! i \<and>
        replacement_count (state_at content (Suc i)) = replacement_count (state_at content i))"
proof -
  note t = trace_step_at [OF assms]
  have nl: "NL \<notin> set (split_nl content ! i)"
    using assms split_nl_no_nl [of "split_nl content ! i" content] by simp
  have b0: "\<forall>sp rest.
        \<not> in_frontmatter (state_at content i) \<and> \<not> in_code_block (state_at content i) \<and>
        set sp \<subseteq> {SP} \<and> length sp \<le> 3 \<and> split_nl content ! i = sp @ [HASH, SP] @ rest \<longrightarrow>
        output_lines content ! i = sp @ [HASH, HASH, SP] @ rest \<and>
        replacement_count (state_at content (Suc i)) = replacement_count (state_at content i) + 1"
    using loop_body_heading [OF t(7) _ _ _ _ nl] t(9) by auto
  have b1: "\<forall>sp c rest.
        set sp \<subseteq> {SP} \<and> c \<noteq> SP \<and> split_nl content ! i = sp @ [HASH, c] @ rest \<longrightarrow>
        output_lines content ! i = split_nl content ! i \<and>
        replacement_count (state_at content (Suc i)) = replacement_count (state_at content i)"
    using loop_body_unchanged [OF t(7)] h1_match_hash_nonspace t(9) by auto
  have b2: "\<forall>rest.
        split_nl content ! i = replicate 4 SP @ rest \<longrightarrow>
        output_lines content ! i = split_nl content ! i \<and>
        replacement_count (state_at content (Suc i)) = replacement_count (state_at content i)"
    using loop_body_unchanged [OF t(7)] h1_match_four_spaces t(9) by auto
  from t(1-6) b0 b1 b2 show ?thesis by blast
qed

text \<open>
  Claim C2.  Outside frontmatter and with no fence open, a line whose content after
  \<open>lstrip\<close> starts with three backticks or three tildes opens a fenced block and the marker
  is remembered in \<open>code_fence_pattern\<close>.  While a fence is open the remembered marker is one
  of the two, a line starting (after \<open>lstrip\<close>) with it closes the fence, and any other line
  keeps the fence and the marker.  Every line read or left with a fence open, so the opening
  line, the lines inside and the closing line, is emitted unchanged and not counted.
\<close>

theorem fenced_lines_pass_through:
  assumes "i < length (split_nl content)"
  shows "convert_h1_to_h2 content = Inr (join_nl (output_lines content), reported_count content) \<and>
     length (output_lines content) = length (split_nl content) \<and>
     state_before content i = Inr (state_at content i) \<and>
     state_before content (Suc i) = Inr (state_at content (Suc i)) \<and>
     state_at content 0 = initial_state \<and>
     reported_count content = replacement_count (state_at content (length (split_nl content))) \<and>
     (\<not> in_frontmatter (state_at content i) \<and> \<not> in_code_block (state_at content i) \<and>
        startswith (lstrip (split_nl content ! i)) (ustr ''```'') \<longrightarrow>
        in_code_block (state_at content (Suc i)) \<and>
        code_fence_pattern (state_at content (Suc i)) = Some (ustr ''```'')) \<and>
     (\<not> in_frontmatter (state_at content i) \<and> \<not> in_code_block (state_at content i) \<and>
        startswith (lstrip (split_nl content ! i)) (ustr ''~~~'') \<longrightarrow>
        in_code_block (state_at content (Suc i)) \<and>
        code_fence_pattern (state_at content (Suc i)) = Some (ustr ''~~~'')) \<and>
     (in_code_block (state_at content i) \<longrightarrow>
        (\<exists>m. code_fence_pattern (state_at content i) = Some m \<and> (m = ustr ''```'' \<or> m = ustr ''~~~'') \<and>
             (if startswith (lstrip (split_nl content ! i)) m
              then \<not> in_code_block (state_at content (Suc i))
              else in_code_block (state_at content (Suc i)) \<and>
                   code_fence_pattern (state_at content (Suc i)) = Some m))) \<and>
     (in_code_block (state_at content i) \<or> in_code_block (state_at content (Suc i)) \<longrightarrow>
        output_lines content ! i = split_nl content ! i \<and>
        replacement_count (state_at content (Suc i)) = replacement_count (state_at content i))"
proof -
  note t = trace_step_at [OF assms]
  have nl: "NL \<notin> set (split_nl content ! i)"
    using assms split_nl_no_nl [of "split_nl content ! i" content] by simp
  have b0: "\<not> in_frontmatter (state_at content i) \<and> \<not> in_code_block (state_at content i) \<and>
        startswith (lstrip (split_nl content ! i)) (ustr ''```'') \<longrightarrow>
        in_code_block (state_at content (Suc i)) \<and>
        code_fence_pattern (state_at content (Suc i)) = Some (ustr ''```'')"
    using loop_body_fence_flags(1) [OF t(8) t(7)] .
  have b1: "\<not> in_frontmatter (state_at content i) \<and> \<not> in_code_block (state_at content i) \<and>
        startswith (lstrip (split_nl content ! i)) (ustr ''~~~'') \<longrightarrow>
        in_code_block (state_at content (Suc i)) \<and>
        code_fence_pattern (state_at content (Suc i)) = Some (ustr ''~~~'')"
    using loop_body_fence_flags(2) [OF t(8) t(7)] .
  have b2: "in_code_block (state_at content i) \<longrightarrow>
        (\<exists>m. code_fence_pattern (state_at content i) = Some m \<and> (m = ustr ''```'' \<or> m = ustr ''~~~'') \<and>
             (if startswith (lstrip (split_nl content ! i)) m
              then \<not> in_code_block (state_at content (Suc i))
              else in_code_block (state_at content (Suc i)) \<and>
                   code_fence_pattern (state_at content (Suc i)) = Some m))"
    using loop_body_fence_flags(3) [OF t(8) t(7)] .
  have b3: "in_code_block (state_at content i) \<or> in_code_block (state_at content (Suc i)) \<longrightarrow>
        output_lines content ! i = split_nl content ! i \<and>
        replacement_count (state_at content (Suc i)) = replacement_count (state_at content i)"
    using loop_body_unchanged [OF t(7)] t(9) by auto
  from t(1-6) b0 b1 b2 b3 show ?thesis by blast
qed

text \<open>
  Claim C3.  The loop is in frontmatter state after line \<open>i\<close> exactly when line \<open>i\<close> is
  line \<open>0\<close> with trimmed content \<open>---\<close>, or it was in frontmatter state before the line and
  the trimmed line is not \<open>---\<close>.  Every line read or left in frontmatter state, so the
  opening line, the lines inside and the closing line, is emitted unchanged and not counted.
\<close>

theorem frontmatter_lines_pass_through:
  assumes "i < length (split_nl content)"
  shows "convert_h1_to_h2 content = Inr (join_nl (output_lines content), reported_count content) \<and>
     length (output_lines content) = length (split_nl content) \<and>
     state_before content i = Inr (state_at content i) \<and>
     state_before content (Suc i) = Inr (state_at content (Suc i)) \<and>
     state_at content 0 = initial_state \<and>
     reported_count content = replacement_count (state_at content (length (split_nl content))) \<and>
     (in_frontmatter (state_at content (Suc i)) \<longleftrightarrow>
        (i = 0 \<and> strip (split_nl content ! i) = ustr ''---'') \<or>
        (in_frontmatter (state_at content i) \<and> strip (split_nl content ! i) \<noteq> ustr ''---'')) \<and>
     (in_frontmatter (state_at content i) \<or> in_frontmatter (state_at content (Suc i)) \<longrightarrow>
        output_lines content ! i = split_nl content ! i \<and>
        replacement_count (state_at content (Suc i)) = replacement_count (state_at content i))"
proof -
  note t = trace_step_at [OF assms]
  have nl: "NL \<notin> set (split_nl content ! i)"
    using assms split_nl_no_nl [of "split_nl content ! i" content] by simp
  have b0: "in_frontmatter (state_at content (Suc i)) \<longleftrightarrow>
        (i = 0 \<and> strip (split_nl content ! i) = ustr ''---'') \<or>
        (in_frontmatter (state_at content i) \<and> strip (split_nl content ! i) \<noteq> ustr ''---'')"
    using loop_body_frontmatter_flag [OF t(8) t(7)] .
  have b1: "in_frontmatter (state_at content i) \<or> in_frontmatter (state_at content (Suc i)) \<longrightarrow>
        output_lines content ! i = split_nl content ! i \<and>
        replacement_count (state_at content (Suc i)) = replacement_count (state_at content i)"
    using loop_body_unchanged [OF t(7)] t(9) by auto
  from t(1-6) b0 b1 show ?thesis by blast
qed

theorem heading1_lines_converted_witness:
  "convert_h1_to_h2 (ustr ''# A'' @ NL # ustr ''#b'' @ NL # ustr ''    # c'') =
     Inr (ustr ''## A'' @ NL # ustr ''#b'' @ NL # ustr ''    # c'', 1)"
proof -
  let ?c = "ustr ''# A'' @ NL # ustr ''#b'' @ NL # ustr ''    # c''"
  have ls: "split_nl ?c = [ustr ''# A'', ustr ''#b'', ustr ''    # c'']"
    by (simp add: ustr_def NL_def)
  have ia: "0 < length (split_nl ?c)" by (simp add: ls)
  note ha = heading1_lines_converted [OF ia]
  have ib: "1 < length (split_nl ?c)" by (simp add: ls)
  note hb = heading1_lines_converted [OF ib]
  have ic: "2 < length (split_nl ?c)" by (simp add: ls)
  note hc = heading1_lines_converted [OF ic]
  have s0: "state_at ?c 0 = initial_state"
    by (rule ha [THEN conjunct2, THEN conjunct2, THEN conjunct2, THEN conjunct2, THEN conjunct1])
  have "output_lines ?c ! 0 = [] @ [HASH, HASH, SP] @ ustr ''A'' \<and>
        replacement_count (state_at ?c (Suc 0)) = replacement_count (state_at ?c 0) + 1"
    by (rule ha [THEN conjunct2, THEN conjunct2, THEN conjunct2, THEN conjunct2, THEN conjunct2, THEN conjunct2, THEN conjunct1, rule_format])
       (unfold ls s0, simp add: initial_state_def ustr_def HASH_def SP_def)
  then have o0: "output_lines ?c ! 0 = ustr ''## A''"
    and c1: "replacement_count (state_at ?c (Suc 0)) = 1"
    unfolding s0 by (simp_all add: initial_state_def ustr_def HASH_def SP_def)
  have "output_lines ?c ! 1 = split_nl ?c ! 1 \<and>
        replacement_count (state_at ?c (Suc 1)) = replacement_count (state_at ?c 1)"
    by (rule hb [THEN conjunct2, THEN conjunct2, THEN conjunct2, THEN conjunct2, THEN conjunct2, THEN conjunct2, THEN conjunct2, THEN conjunct1, rule_format, of "[]" 98 "[]"])
       (unfold ls, simp add: ustr_def HASH_def SP_def)
  then have o1: "output_lines ?c ! 1 = ustr ''#b''"
    and c2: "replacement_count (state_at ?c (Suc 1)) = 1"
    using c1 by (simp_all add: ls)
  have "output_lines ?c ! 2 = split_nl ?c ! 2 \<and>
        replacement_count (state_at ?c (Suc 2)) = replacement_count (state_at ?c 2)"
    by (rule hc [THEN conjunct2, THEN conjunct2, THEN conjunct2, THEN conjunct2, THEN conjunct2, THEN conjunct2, THEN conjunct2, THEN conjunct2, rule_format, of "ustr ''# c''"])
       (unfold ls, simp add: ustr_def HASH_def SP_def numeral_eq_Suc)
  then have o2: "output_lines ?c ! 2 = ustr ''    # c''"
    and c3: "replacement_count (state_at ?c (Suc 2)) = 1"
    using c2 by (simp_all add: ls numeral_2_eq_2)
  have n: "reported_count ?c = 1"
    using ha [THEN conjunct2, THEN conjunct2, THEN conjunct2, THEN conjunct2, THEN conjunct2, THEN conjunct1] c3 by (simp add: ls numeral_3_eq_3 numeral_2_eq_2)
  have "length (output_lines ?c) = 3"
    using ha [THEN conjunct2, THEN conjunct1] by (simp add: ls)
  then have "output_lines ?c = [ustr ''## A'', ustr ''#b'', ustr ''    # c'']"
    using o0 o1 o2 by (auto simp: ls list_eq_iff_nth_eq less_Suc_eq numeral_3_eq_3 numeral_2_eq_2)
  then have "join_nl (output_lines ?c) = ustr ''## A'' @ NL # ustr ''#b'' @ NL # ustr ''    # c''"
    by (simp add: join_split_nl)
  with ha [THEN conjunct1] n show ?thesis by simp
qed

theorem fenced_lines_pass_through_witness:
  "convert_h1_to_h2 (ustr ''```'' @ NL # ustr ''# x'' @ NL # ustr ''```'') =
     Inr (ustr ''```'' @ NL # ustr ''# x'' @ NL # ustr ''```'', 0)"
proof -
  let ?c = "ustr ''```'' @ NL # ustr ''# x'' @ NL # ustr ''```''"
  have ls: "split_nl ?c = [ustr ''```'', ustr ''# x'', ustr ''```'']"
    by (simp add: ustr_def NL_def)
  have ia: "0 < length (split_nl ?c)" by (simp add: ls)
  note ha = fenced_lines_pass_through [OF ia]
  have ib: "1 < length (split_nl ?c)" by (simp add: ls)
  note hb = fenced_lines_pass_through [OF ib]
  have ic: "2 < length (split_nl ?c)" by (simp add: ls)
  note hc = fenced_lines_pass_through [OF ic]
  have s0: "state_at ?c 0 = initial_state"
    by (rule ha [THEN conjunct2, THEN conjunct2, THEN conjunct2, THEN conjunct2, THEN conjunct1])
  have fa: "in_code_block (state_at ?c (Suc 0)) \<and>
            code_fence_pattern (state_at ?c (Suc 0)) = Some (ustr ''```'')"
    by (rule ha [THEN conjunct2, THEN conjunct2, THEN conjunct2, THEN conjunct2, THEN conjunct2, THEN conjunct2, THEN conjunct1, rule_format])
       (unfold ls s0, simp add: initial_state_def ustr_def lstrip_def strip_def rstrip_def startswith_def is_space_def)
  with ha [THEN conjunct2, THEN conjunct2, THEN conjunct2, THEN conjunct2, THEN conjunct2, THEN conjunct2, THEN conjunct2, THEN conjunct2, THEN conjunct2] have o0: "output_lines ?c ! 0 = split_nl ?c ! 0"
    and c1: "replacement_count (state_at ?c (Suc 0)) = 0"
    by (simp_all add: s0 initial_state_def)
  from hb [THEN conjunct2, THEN conjunct2, THEN conjunct2, THEN conjunct2, THEN conjunct2, THEN conjunct2, THEN conjunct2, THEN conjunct2, THEN conjunct1] fa obtain m where m: "code_fence_pattern (state_at ?c 1) = Some m"
      "if startswith (lstrip (split_nl ?c ! 1)) m then \<not> in_code_block (state_at ?c (Suc 1))
       else in_code_block (state_at ?c (Suc 1)) \<and> code_fence_pattern (state_at ?c (Suc 1)) = Some m"
    by auto
  from m(1) fa have "m = ustr ''```''" by simp
  with m(2) have fb: "in_code_block (state_at ?c (Suc 1)) \<and>
            code_fence_pattern (state_at ?c (Suc 1)) = Some (ustr ''```'')"
    unfolding ls by (simp add: ustr_def lstrip_def strip_def rstrip_def startswith_def is_space_def)
  with hb [THEN conjunct2, THEN conjunct2, THEN conjunct2, THEN conjunct2, THEN conjunct2, THEN conjunct2, THEN conjunct2, THEN conjunct2, THEN conjunct2] have o1: "output_lines ?c ! 1 = split_nl ?c ! 1"
    and c2: "replacement_count (state_at ?c (Suc 1)) = 0"
    using c1 by simp_all
  from hc [THEN conjunct2, THEN conjunct2, THEN conjunct2, THEN conjunct2, THEN conjunct2, THEN conjunct2, THEN conjunct2, THEN conjunct2, THEN conjunct2] fb have o2: "output_lines ?c ! 2 = split_nl ?c ! 2"
    and c3: "replacement_count (state_at ?c (Suc 2)) = 0"
    using c2 by (simp_all add: numeral_2_eq_2)
  have n: "reported_count ?c = 0"
    using ha [THEN conjunct2, THEN conjunct2, THEN conjunct2, THEN conjunct2, THEN conjunct2, THEN conjunct1] c3 by (simp add: ls numeral_3_eq_3 numeral_2_eq_2)
  have "length (output_lines ?c) = 3"
    using ha [THEN conjunct2, THEN conjunct1] by (simp add: ls)
  then have "output_lines ?c = split_nl ?c"
    using o0 o1 o2 by (auto simp: ls list_eq_iff_nth_eq less_Suc_eq numeral_3_eq_3 numeral_2_eq_2)
  then have "join_nl (output_lines ?c) = ?c"
    by (simp add: join_split_nl)
  with ha [THEN conjunct1] n show ?thesis by simp
qed

theorem frontmatter_lines_pass_through_witness:
  "convert_h1_to_h2 (ustr ''---'' @ NL # ustr ''# x'' @ NL # ustr ''---'') =
     Inr (ustr ''---'' @ NL # ustr ''# x'' @ NL # ustr ''---'', 0)"
proof -
  let ?c = "ustr ''---'' @ NL # ustr ''# x'' @ NL # ustr ''---''"
  have ls: "split_nl ?c = [ustr ''---'', ustr ''# x'', ustr ''---'']"
    by (simp add: ustr_def NL_def)
  have ia: "0 < length (split_nl ?c)" by (simp add: ls)
  note ha = frontmatter_lines_pass_through [OF ia]
  have ib: "1 < length (split_nl ?c)" by (simp add: ls)
  note hb = frontmatter_lines_pass_through [OF ib]
  have ic: "2 < length (split_nl ?c)" by (simp add: ls)
  note hc = frontmatter_lines_pass_through [OF ic]
  have s0: "state_at ?c 0 = initial_state"
    by (rule ha [THEN conjunct2, THEN conjunct2, THEN conjunct2, THEN conjunct2, THEN conjunct1])
  from ha [THEN conjunct2, THEN conjunct2, THEN conjunct2, THEN conjunct2, THEN conjunct2, THEN conjunct2, THEN conjunct1] have fa: "in_frontmatter (state_at ?c (Suc 0))"
    unfolding ls by (simp add: ustr_def lstrip_def strip_def rstrip_def startswith_def is_space_def)
  with ha [THEN conjunct2, THEN conjunct2, THEN conjunct2, THEN conjunct2, THEN conjunct2, THEN conjunct2, THEN conjunct2] have o0: "output_lines ?c ! 0 = split_nl ?c ! 0"
    and c1: "replacement_count (state_at ?c (Suc 0)) = 0"
    by (simp_all add: s0 initial_state_def)
  from hb [THEN conjunct2, THEN conjunct2, THEN conjunct2, THEN conjunct2, THEN conjunct2, THEN conjunct2, THEN conjunct1] fa have fb: "in_frontmatter (state_at ?c (Suc 1))"
    unfolding ls by (simp add: ustr_def lstrip_def strip_def rstrip_def startswith_def is_space_def)
  from hb [THEN conjunct2, THEN conjunct2, THEN conjunct2, THEN conjunct2, THEN conjunct2, THEN conjunct2, THEN conjunct2] fa have o1: "output_lines ?c ! 1 = split_nl ?c ! 1"
    and c2: "replacement_count (state_at ?c (Suc 1)) = 0"
    using c1 by simp_all
  from hc [THEN conjunct2, THEN conjunct2, THEN conjunct2, THEN conjunct2, THEN conjunct2, THEN conjunct2, THEN conjunct2] fb have o2: "output_lines ?c ! 2 = split_nl ?c ! 2"
    and c3: "replacement_count (state_at ?c (Suc 2)) = 0"
    using c2 by (simp_all add: numeral_2_eq_2)
  have n: "reported_count ?c = 0"
    using ha [THEN conjunct2, THEN conjunct2, THEN conjunct2, THEN conjunct2, THEN conjunct2, THEN conjunct1] c3 by (simp add: ls numeral_3_eq_3 numeral_2_eq_2)
  have "length (output_lines ?c) = 3"
    using ha [THEN conjunct2, THEN conjunct1] by (simp add: ls)
  then have "output_lines ?c = split_nl ?c"
    using o0 o1 o2 by (auto simp: ls list_eq_iff_nth_eq less_Suc_eq numeral_3_eq_3 numeral_2_eq_2)
  then have "join_nl (output_lines ?c) = ?c"
    by (simp add: join_split_nl)
  with ha [THEN conjunct1] n show ?thesis by simp
qed

lemma converted_line_inert:
  assumes "h1_match line = Some (sp, rest)"
  shows "strip (sp @ ustr ''## '' @ rest) \<noteq> ustr ''---''"
    and "\<not> startswith (lstrip (sp @ ustr ''## '' @ rest)) (ustr ''```'')"
    and "\<not> startswith (lstrip (sp @ ustr ''## '' @ rest)) (ustr ''~~~'')"
    and "h1_match (sp @ ustr ''## '' @ rest) = None"
proof -
  from h1_match_shape [OF assms] have sp: "set sp \<subseteq> {SP}" by simp
  have e: "sp @ ustr ''## '' @ rest = sp @ HASH # (HASH # SP # rest)"
    by (simp add: ustr_simps HASH_def SP_def)
  show "strip (sp @ ustr ''## '' @ rest) \<noteq> ustr ''---''"
    and "\<not> startswith (lstrip (sp @ ustr ''## '' @ rest)) (ustr ''```'')"
    and "\<not> startswith (lstrip (sp @ ustr ''## '' @ rest)) (ustr ''~~~'')"
    unfolding e using heading_not_opener [OF sp] by simp_all
  have "h1_match (sp @ [HASH, HASH] @ (SP # rest)) = None"
    by (rule h1_match_hash_nonspace [OF sp]) (simp add: HASH_def SP_def)
  then show "h1_match (sp @ ustr ''## '' @ rest) = None"
    by (simp add: e)
qed

lemma loop_body_second_pass:
  assumes lb: "loop_body i line st = Inr st'"
    and res: "result_lines st' = result_lines st @ [l]"
    and sf: "same_flags st st2"
  shows "\<exists>st2'. loop_body i l st2 = Inr st2' \<and> same_flags st' st2' \<and>
           result_lines st2' = result_lines st2 @ [l] \<and>
           replacement_count st2' = replacement_count st2"
proof (cases rule: loop_body_cases [where i = i and line = line and st = st])
  case fm_open
  with lb res sf show ?thesis
    by (auto simp: loop_body_fm_open append_line_def same_flags_def)
next
  case fm_inside
  with lb res sf show ?thesis
    by (auto simp: loop_body_fm_inside append_line_def same_flags_def split: if_splits)
next
  case fenced
  with lb obtain pat where pat: "code_fence_pattern st = Some pat"
    using loop_body_fenced_any by blast
  from sf fenced pat have f2: "\<not> in_frontmatter st2" "in_code_block st2"
    "code_fence_pattern st2 = Some pat"
    by (simp_all add: same_flags_def)
  from lb res fenced pat have "l = line"
    by (auto simp: loop_body_fenced append_line_def split: if_splits)
  with lb fenced pat f2 sf show ?thesis
    by (auto simp: loop_body_fenced append_line_def same_flags_def split: if_splits)
next
  case open_backtick
  with lb res sf show ?thesis
    by (auto simp: loop_body_fence_open_backtick append_line_def same_flags_def)
next
  case open_tilde
  with lb res sf show ?thesis
    by (auto simp: loop_body_fence_open_tilde append_line_def same_flags_def)
next
  case normal
  from sf normal have n2: "\<not> in_frontmatter st2" "\<not> in_code_block st2"
    by (simp_all add: same_flags_def)
  show ?thesis
  proof (cases "h1_match line")
    case None
    with lb res normal have "l = line" and "same_flags st' st"
      by (auto simp: loop_body_normal append_line_def same_flags_def)
    with sf None normal n2 show ?thesis
      by (auto simp: loop_body_normal append_line_def same_flags_def)
  next
    case (Some p)
    obtain sp rest where p: "p = (sp, rest)" by (cases p)
    from lb res normal Some p have l: "l = sp @ ustr ''## '' @ rest" and "same_flags st' st"
      by (auto simp: loop_body_normal append_line_def same_flags_def)
    note inert = converted_line_inert [OF Some [unfolded p]]
    have "loop_body i l st2 = Inr (append_line l st2)"
      unfolding l using inert n2 by (simp add: loop_body_normal)
    with sf \<open>same_flags st' st\<close> show ?thesis
      by (auto simp: append_line_def same_flags_def)
  qed
qed

lemma for_lines_second_pass:
  assumes "reach i st" "same_flags st st2" "for_lines i ls st = Inr st'"
  shows "\<exists>outs st2'. result_lines st' = result_lines st @ outs \<and>
           for_lines i outs st2 = Inr st2' \<and> same_flags st' st2' \<and>
           result_lines st2' = result_lines st2 @ outs \<and>
           replacement_count st2' = replacement_count st2"
  using assms
proof (induction ls arbitrary: i st st2)
  case Nil
  then show ?case by auto
next
  case (Cons line ls)
  from Cons.prems(3) obtain st1 where
    s1: "loop_body i line st = Inr st1" "for_lines (Suc i) ls st1 = Inr st'"
    by (auto split: sum.splits)
  from loop_body_props [OF Cons.prems(1) s1(1)] obtain l where
    r1: "reach (Suc i) st1" "result_lines st1 = result_lines st @ [l]"
    by blast
  from loop_body_second_pass [OF s1(1) r1(2) Cons.prems(2)] obtain st21 where
    p1: "loop_body i l st2 = Inr st21" "same_flags st1 st21"
        "result_lines st21 = result_lines st2 @ [l]"
        "replacement_count st21 = replacement_count st2"
    by blast
  from Cons.IH [OF r1(1) p1(2) s1(2)] obtain outs st2' where
    p2: "result_lines st' = result_lines st1 @ outs" "for_lines (Suc i) outs st21 = Inr st2'"
        "same_flags st' st2'" "result_lines st2' = result_lines st21 @ outs"
        "replacement_count st2' = replacement_count st21"
    by blast
  show ?case
    using r1(2) p1 p2
    by (intro exI [of _ "l # outs"] exI [of _ st2']) simp
qed

text \<open>
  Claim C4.  The transform is idempotent: run on its own output it returns that output
  unchanged and reports zero conversions.
\<close>

theorem convert_idempotent:
  assumes "convert_h1_to_h2 s = Inr (s', n)"
  shows "convert_h1_to_h2 s' = Inr (s', 0)"
proof -
  from assms obtain stN where
    run: "for_lines 0 (split_nl s) initial_state = Inr stN" and s': "s' = join_nl (result_lines stN)"
    by (auto simp: convert_h1_to_h2_def split: sum.splits)
  have "\<forall>l\<in>set (split_nl s). NL \<notin> set l"
    using split_nl_no_nl by blast
  from for_lines_reach [OF reach_initial this] run obtain outs where
    outs: "result_lines stN = result_lines initial_state @ outs" "length outs = length (split_nl s)"
      "\<forall>l\<in>set outs. NL \<notin> set l"
    by auto
  have res: "result_lines stN = outs"
    using outs(1) by (simp add: initial_state_def)
  have "outs \<noteq> []"
    using outs(2) split_nl_nonempty [of s] by auto
  then have sp: "split_nl s' = outs"
    unfolding s' res using outs(3) by (rule split_join_nl)
  have "same_flags initial_state initial_state"
    by (simp add: same_flags_def)
  from for_lines_second_pass [OF reach_initial this run] obtain outs2 st2 where
    p: "result_lines stN = result_lines initial_state @ outs2"
       "for_lines 0 outs2 initial_state = Inr st2"
       "result_lines st2 = result_lines initial_state @ outs2"
       "replacement_count st2 = replacement_count initial_state"
    by blast
  from p(1) res have "outs2 = outs" by (simp add: initial_state_def)
  with p(2,3,4) have "for_lines 0 (split_nl s') initial_state = Inr st2"
    "result_lines st2 = outs" "replacement_count st2 = 0"
    by (simp_all add: sp initial_state_def)
  then show ?thesis
    by (simp add: convert_h1_to_h2_def s' res)
qed

theorem convert_idempotent_witness:
  "convert_h1_to_h2 (ustr ''# A'' @ NL # ustr ''```'' @ NL # ustr ''# b'') =
     Inr (ustr ''## A'' @ NL # ustr ''```'' @ NL # ustr ''# b'', 1) \<and>
   convert_h1_to_h2 (ustr ''## A'' @ NL # ustr ''```'' @ NL # ustr ''# b'') =
     Inr (ustr ''## A'' @ NL # ustr ''```'' @ NL # ustr ''# b'', 0)"
proof -
  have a: "convert_h1_to_h2 (ustr ''# A'' @ NL # ustr ''```'' @ NL # ustr ''# b'') =
     Inr (ustr ''## A'' @ NL # ustr ''```'' @ NL # ustr ''# b'', 1)"
    by (simp add: transform_eval)
  from convert_idempotent [OF a] a show ?thesis by simp
qed


lemma convert_line_no_nl: "NL \<notin> set l \<Longrightarrow> NL \<notin> set (convert_line l)"
  using h1_match_no_nl [of l] by (auto simp: convert_line_def split: option.splits)

lemma for_lines_plain:
  assumes "\<not> in_frontmatter st" "\<not> in_code_block st"
    and "0 < i \<or> ls = [] \<or> strip (hd ls) \<noteq> ustr ''---''"
    and "list_all (\<lambda>l. \<not> startswith (lstrip l) (ustr ''```'') \<and> \<not> startswith (lstrip l) (ustr ''~~~'')) ls"
  shows "for_lines i ls st =
           Inr (st\<lparr>result_lines := result_lines st @ map convert_line ls,
                   replacement_count :=
                     replacement_count st + int (length (filter (\<lambda>l. h1_match l \<noteq> None) ls))\<rparr>)"
  using assms
proof (induction ls arbitrary: i st)
  case Nil
  then show ?case by simp
next
  case (Cons line ls)
  from Cons.prems(3) have c0: "0 < i \<or> strip line \<noteq> ustr ''---''" by simp
  from Cons.prems(4) have nf: "\<not> startswith (lstrip line) (ustr ''```'')"
    "\<not> startswith (lstrip line) (ustr ''~~~'')"
    and rest: "list_all (\<lambda>l. \<not> startswith (lstrip l) (ustr ''```'') \<and> \<not> startswith (lstrip l) (ustr ''~~~'')) ls"
    by simp_all
  note step = loop_body_normal [OF c0 Cons.prems(1,2) nf]
  show ?case
  proof (cases "h1_match line")
    case None
    let ?st1 = "append_line line st"
    have f: "\<not> in_frontmatter ?st1" "\<not> in_code_block ?st1"
      using Cons.prems(1,2) by (simp_all add: append_line_def)
    have "for_lines i (line # ls) st = for_lines (Suc i) ls ?st1"
      by (simp add: step None)
    also note Cons.IH [OF f _ rest, of "Suc i"]
    finally show ?thesis
      using None by (simp add: append_line_def convert_line_def)
  next
    case (Some p)
    obtain sp rest' where p: "p = (sp, rest')" by (cases p)
    let ?st1 = "(append_line (sp @ ustr ''## '' @ rest') st)\<lparr>replacement_count := replacement_count st + 1\<rparr>"
    have f: "\<not> in_frontmatter ?st1" "\<not> in_code_block ?st1"
      using Cons.prems(1,2) by (simp_all add: append_line_def)
    have "for_lines i (line # ls) st = for_lines (Suc i) ls ?st1"
      by (simp add: step Some p)
    also note Cons.IH [OF f _ rest, of "Suc i"]
    finally show ?thesis
      using Some p by (simp add: append_line_def convert_line_def)
  qed
qed

lemma convert_line_cases:
  "(case h1_match line of
      None \<Rightarrow> convert_line line = line
    | Some (sp, rest) \<Rightarrow>
        line = sp @ [HASH, SP] @ rest \<and> convert_line line = sp @ [HASH, HASH, SP] @ rest \<and>
        length sp \<le> 3 \<and> set sp \<subseteq> {SP})" if "NL \<notin> set line"
proof (cases "h1_match line")
  case None
  then show ?thesis by (simp add: convert_line_def)
next
  case (Some p)
  obtain sp rest where p: "p = (sp, rest)" by (cases p)
  from h1_match_shape [OF Some [unfolded p]] that
  have "line = sp @ [HASH, SP] @ rest" "length sp \<le> 3" "set sp \<subseteq> {SP}"
    by auto
  with Some p show ?thesis
    by (simp add: convert_line_def ustr_simps HASH_def SP_def)
qed

text \<open>
  Claim C5, amended.  For an input without frontmatter and without fences the count returned
  is the number of lines the heading pattern matches; the output has as many lines as the
  input; at the index of each matching line the output line is the input line's zero to three
  leading spaces followed by \<open>##\<close>, a space and its remaining text (so \<open>##\<close> follows the
  leading spaces, it need not be at the start of the line); every other line is unchanged.
\<close>

theorem plain_input_count_and_positions:
  assumes "no_excluded_regions content"
  shows "convert_h1_to_h2 content =
           Inr (join_nl (output_lines content), int (h1_line_count content)) \<and>
         length (output_lines content) = length (split_nl content) \<and>
         (\<forall>i<length (split_nl content).
            (case h1_match (split_nl content ! i) of
               None \<Rightarrow> output_lines content ! i = split_nl content ! i
             | Some (sp, rest) \<Rightarrow>
                 split_nl content ! i = sp @ [HASH, SP] @ rest \<and>
                 output_lines content ! i = sp @ [HASH, HASH, SP] @ rest \<and>
                 length sp \<le> 3 \<and> set sp \<subseteq> {SP}))"
proof -
  let ?ls = "split_nl content"
  from assms have a: "0 < (0::nat) \<or> ?ls = [] \<or> strip (hd ?ls) \<noteq> ustr ''---''"
    and b: "list_all (\<lambda>l. \<not> startswith (lstrip l) (ustr ''```'') \<and> \<not> startswith (lstrip l) (ustr ''~~~'')) ?ls"
    by (simp_all add: no_excluded_regions_def)
  have "for_lines 0 ?ls initial_state =
          Inr (initial_state\<lparr>result_lines := result_lines initial_state @ map convert_line ?ls,
                 replacement_count := replacement_count initial_state +
                   int (length (filter (\<lambda>l. h1_match l \<noteq> None) ?ls))\<rparr>)"
    by (rule for_lines_plain [OF _ _ a b]) (simp_all add: initial_state_def)
  then have conv: "convert_h1_to_h2 content =
      Inr (join_nl (map convert_line ?ls), int (h1_line_count content))"
    by (simp add: convert_h1_to_h2_def initial_state_def h1_line_count_def)
  have nl: "\<forall>l\<in>set (map convert_line ?ls). NL \<notin> set l"
    using split_nl_no_nl convert_line_no_nl by auto
  have "map convert_line ?ls \<noteq> []"
    using split_nl_nonempty by simp
  then have "split_nl (join_nl (map convert_line ?ls)) = map convert_line ?ls"
    using nl by (rule split_join_nl)
  then have ol: "output_lines content = map convert_line ?ls"
    by (simp add: output_lines_def conv)
  have "\<forall>i<length ?ls.
            (case h1_match (?ls ! i) of
               None \<Rightarrow> output_lines content ! i = ?ls ! i
             | Some (sp, rest) \<Rightarrow>
                 ?ls ! i = sp @ [HASH, SP] @ rest \<and>
                 output_lines content ! i = sp @ [HASH, HASH, SP] @ rest \<and>
                 length sp \<le> 3 \<and> set sp \<subseteq> {SP})"
  proof (intro allI impI)
    fix i assume i: "i < length ?ls"
    then have "NL \<notin> set (?ls ! i)"
      using split_nl_no_nl [of "?ls ! i" content] by simp
    moreover from i have "output_lines content ! i = convert_line (?ls ! i)"
      by (simp add: ol)
    ultimately show "case h1_match (?ls ! i) of
               None \<Rightarrow> output_lines content ! i = ?ls ! i
             | Some (sp, rest) \<Rightarrow>
                 ?ls ! i = sp @ [HASH, SP] @ rest \<and>
                 output_lines content ! i = sp @ [HASH, HASH, SP] @ rest \<and>
                 length sp \<le> 3 \<and> set sp \<subseteq> {SP}"
      using convert_line_cases [of "?ls ! i"] by (auto split: option.splits)
  qed
  moreover have "convert_h1_to_h2 content =
           Inr (join_nl (output_lines content), int (h1_line_count content))"
    by (simp add: conv ol)
  moreover have "length (output_lines content) = length ?ls"
    by (simp add: ol)
  ultimately show ?thesis by blast
qed

text \<open>
  The claim as stated fails on an indented heading: the input has one matching line and no
  excluded region, the count is \<open>1\<close>, and no line of the output begins with \<open>##\<close>.
\<close>

theorem h2_prefix_count_counterexample:
  "no_excluded_regions (ustr '' # x'') \<and> h1_line_count (ustr '' # x'') = 1 \<and>
   convert_h1_to_h2 (ustr '' # x'') = Inr (ustr '' ## x'', 1) \<and>
   h2_prefix_count (ustr '' ## x'') = 0"
  by (simp add: no_excluded_regions_def h1_line_count_def h2_prefix_count_def transform_eval)


theorem plain_input_count_and_positions_witness:
  "no_excluded_regions (ustr ''# T'' @ NL # ustr ''## A'' @ NL # ustr '' # x'') \<and>
   convert_h1_to_h2 (ustr ''# T'' @ NL # ustr ''## A'' @ NL # ustr '' # x'') =
     Inr (ustr ''## T'' @ NL # ustr ''## A'' @ NL # ustr '' ## x'', 2)"
proof -
  let ?c = "ustr ''# T'' @ NL # ustr ''## A'' @ NL # ustr '' # x''"
  have ls: "split_nl ?c = [ustr ''# T'', ustr ''## A'', ustr '' # x'']"
    by (simp add: ustr_def NL_def)
  have ne: "no_excluded_regions ?c"
    unfolding no_excluded_regions_def ls
    by (simp add: ustr_def lstrip_def strip_def rstrip_def startswith_def is_space_def)
  note h = plain_input_count_and_positions [OF ne]
  have m: "h1_match (ustr ''# T'') = Some ([], ustr ''T'')" "h1_match (ustr ''## A'') = None"
    "h1_match (ustr '' # x'') = Some ([SP], ustr ''x'')"
    by (simp_all add: h1_match_def startswith_def ustr_def SP_def HASH_def NL_def)
  have n: "h1_line_count ?c = 2"
    unfolding h1_line_count_def ls by (simp add: m)
  note all = h [THEN conjunct2, THEN conjunct2, rule_format]
  from all [of 0] have o0: "output_lines ?c ! 0 = ustr ''## T''"
    unfolding ls by (simp add: m) (simp add: ustr_def HASH_def SP_def)
  from all [of 1] have o1: "output_lines ?c ! 1 = ustr ''## A''"
    unfolding ls by (simp add: m)
  from all [of 2] have o2: "output_lines ?c ! 2 = ustr '' ## x''"
    unfolding ls by (simp add: m) (simp add: ustr_def HASH_def SP_def)
  have "length (output_lines ?c) = 3"
    using h [THEN conjunct2, THEN conjunct1] by (simp add: ls)
  then have "output_lines ?c = [ustr ''## T'', ustr ''## A'', ustr '' ## x'']"
    using o0 o1 o2 by (auto simp: list_eq_iff_nth_eq less_Suc_eq numeral_3_eq_3 numeral_2_eq_2)
  then have "join_nl (output_lines ?c) = ustr ''## T'' @ NL # ustr ''## A'' @ NL # ustr '' ## x''"
    by simp
  with h [THEN conjunct1] n ne show ?thesis by simp
qed

section \<open>Claims about files, errors and the exit code\<close>

lemma strerror_head: "strerror err \<noteq> [] \<and> hd (strerror err) = 91"
  by (cases err) (simp_all add: strerror_def ustr_def)

lemma str_exn_not_decode_message:
  "str_exn e \<noteq> ustr ''Could not decode file with supported encodings''"
proof (cases "e = MemoryError")
  case True
  then show ?thesis by (simp add: str_exn_def ustr_def)
next
  case False
  then have "hd (str_exn e) \<noteq> 67"
    using strerror_head by (cases e) (simp_all add: str_exn_def ustr_def)
  moreover have "hd (ustr ''Could not decode file with supported encodings'') = 67"
    by (simp add: ustr_def)
  ultimately show ?thesis by metis
qed

lemma touch_twice: "touch p (touch p w) = touch p w"
  by (simp add: touch_def)

lemma touch_keeps:
  "fs (touch p w) = fs w" "history (touch p w) = history w" "denied (touch p w) = denied w"
  "memory (touch p w) = memory w" "now_meta (touch p w) = now_meta w"
  "stdout (touch p w) = stdout w" "updates_atime (touch p w) = updates_atime w"
  by (simp_all add: touch_def)

lemma touch_world: "touch p w = w\<lparr>atime := atime (touch p w)\<rparr>"
  by (simp add: touch_def)

lemma touch_atime:
  "q \<noteq> p \<Longrightarrow> atime (touch p w) q = atime w q"
  "atime (touch p w) p = (if updates_atime w p then now_meta w else atime w p)"
  by (simp_all add: touch_def)


lemma read_bytes_Inr:
  assumes "read_bytes p w = (Inr bs, w1)"
  shows "w1 = touch p w" and "read_bytes p w1 = (Inr bs, w1)"
proof -
  from assms show w1: "w1 = touch p w"
    by (auto simp: read_bytes_def split: if_splits option.splits node.splits)
  from assms show "read_bytes p w1 = (Inr bs, w1)"
    unfolding w1
    by (auto simp: read_bytes_def touch_keeps touch_twice split: if_splits option.splits node.splits)
qed



lemma read_first_default_encodings:
  "(\<exists>e. fst (read_bytes p w) = Inl e \<and> read_first [Utf8, Utf8Sig, Latin1] p w = (Inl e, snd (read_bytes p w))) \<or>
   (\<exists>content enc. read_first [Utf8, Utf8Sig, Latin1] p w = (Inr (Some (content, enc)), touch p w))"
proof -
  obtain res w1 where rb: "read_bytes p w = (res, w1)"
    by (cases "read_bytes p w")
  show ?thesis
  proof (cases res)
    case (Inl e)
    with rb show ?thesis by simp
  next
    case (Inr bs)
    note r = read_bytes_Inr [OF rb [unfolded Inr]]
    have "decode Latin1 bs = Some (map unat bs)" by (simp add: decode_def)
    with rb Inr r have "\<exists>content enc. read_first [Utf8, Utf8Sig, Latin1] p w = (Inr (Some (content, enc)), w1)"
      by (simp split: option.splits)
    with r(1) show ?thesis by simp
  qed
qed

lemma read_first_not_None:
  "fst (read_first [Utf8, Utf8Sig, Latin1] p w) \<noteq> Inr None"
  using read_first_default_encodings [of p w] by auto


lemma print_result:
  "print s w = (Inr (), w\<lparr>stdout := stdout w @ [s]\<rparr>) \<or> print s w = (Inl UnicodeEncodeError, w)"
  by (simp add: print_def)



lemma process_file_read_error:
  assumes "read_first [Utf8, Utf8Sig, Latin1] p w = (Inl e, w0)"
  shows "process_file p vault_root dry_run create_backups verbose w =
           (\<lparr>file_path = p, replacements = 0, modified = False, error = Some (str_exn e)\<rparr>, w0)"
  using assms by (simp add: process_file_def process_file_try_def)

lemma process_file_after_decode:
  assumes "read_first [Utf8, Utf8Sig, Latin1] p w = (Inr found, w0)"
  shows "process_file p vault_root dry_run create_backups verbose w =
           (case after_decode found p vault_root dry_run create_backups verbose w0 of
              (Inr r, w') \<Rightarrow> (r, w')
            | (Inl e, w') \<Rightarrow>
                (\<lparr>file_path = p, replacements = 0, modified = False, error = Some (str_exn e)\<rparr>, w'))"
  using assms by (simp add: process_file_def process_file_try_def)

lemma after_decode_nothing:
  assumes "convert_h1_to_h2 content = Inr (new_content, 0)"
  shows "after_decode (Some (content, enc)) p vault_root dry_run create_backups verbose w =
           (Inr \<lparr>file_path = p, replacements = 0, modified = False, error = None\<rparr>, w)"
  using assms by (simp add: after_decode_def)


lemma after_decode_dry_run:
  assumes "convert_h1_to_h2 content = Inr (new_content, n)" "n \<noteq> 0"
    and "announce verbose p vault_root n w = (Inr u, w1)"
  shows "after_decode (Some (content, enc)) p vault_root True create_backups verbose w =
           (Inr \<lparr>file_path = p, replacements = n, modified = False, error = None\<rparr>, w1)"
  using assms by (simp add: after_decode_def)




lemma after_decode_error_free:
  assumes "after_decode (Some (content, enc)) p vault_root dry_run create_backups verbose w = (Inr r, w')"
  shows "error r = None \<and> file_path r = p \<and>
         (\<exists>new_content. convert_h1_to_h2 content = Inr (new_content, replacements r))"
proof (cases "convert_h1_to_h2 content")
  case (Inl e)
  with assms show ?thesis by (simp add: after_decode_def)
next
  case (Inr res)
  obtain new_content n where res: "res = (new_content, n)" by (cases res)
  with Inr have c: "convert_h1_to_h2 content = Inr (new_content, n)" by simp
  from assms c show ?thesis
    by (auto simp: after_decode_def split: if_splits sum.splits prod.splits)
qed



text \<open>
  Claim C10.  Latin-1 decodes every byte sequence, so the loop over the three encodings never
  ends with \<^verbatim>\<open>content\<close> still \<^verbatim>\<open>None\<close>, it returns a decoded text for every file that can be
  read, and the result of \<^verbatim>\<open>process_file\<close> never carries the
  error \<^verbatim>\<open>Could not decode file with supported encodings\<close>, whatever the file, the flags
  and the state of the world.
\<close>

theorem decode_error_unreachable:
  "decode Latin1 bs = Some (map unat bs) \<and>
   fst (read_first [Utf8, Utf8Sig, Latin1] p w) \<noteq> Inr None \<and>
   (\<forall>raw. fst (read_bytes p w) = Inr raw \<longrightarrow>
      (\<exists>content enc. fst (read_first [Utf8, Utf8Sig, Latin1] p w) = Inr (Some (content, enc)))) \<and>
   error (fst (process_file p vault_root dry_run create_backups verbose w)) \<noteq>
     Some (ustr ''Could not decode file with supported encodings'')"
proof -
  have readable: "\<forall>raw. fst (read_bytes p w) = Inr raw \<longrightarrow>
      (\<exists>content enc. fst (read_first [Utf8, Utf8Sig, Latin1] p w) = Inr (Some (content, enc)))"
    using read_first_default_encodings [of p w] by auto
  obtain res w0 where rf: "read_first [Utf8, Utf8Sig, Latin1] p w = (res, w0)"
    by (cases "read_first [Utf8, Utf8Sig, Latin1] p w")
  have "error (fst (process_file p vault_root dry_run create_backups verbose w)) \<noteq>
     Some (ustr ''Could not decode file with supported encodings'')"
  proof (cases res)
    case (Inl e)
    with rf show ?thesis
      using str_exn_not_decode_message [of e]
      by (simp add: process_file_read_error)
  next
    case (Inr found)
    with rf read_first_not_None [of p w] obtain content enc where f: "found = Some (content, enc)"
      by (cases found) auto
    obtain res2 w' where ad:
      "after_decode (Some (content, enc)) p vault_root dry_run create_backups verbose w0 = (res2, w')"
      by (cases "after_decode (Some (content, enc)) p vault_root dry_run create_backups verbose w0")
    show ?thesis
    proof (cases res2)
      case e: (Inl e)
      with rf Inr f ad show ?thesis
        using str_exn_not_decode_message [of e]
        by (simp add: process_file_after_decode)
    next
      case r: (Inr r)
      with ad have "error r = None"
        using after_decode_error_free by blast
      with rf Inr f ad r show ?thesis
        by (simp add: process_file_after_decode)
    qed
  qed
  then show ?thesis
    using read_first_not_None [of p w] readable by (simp add: decode_def)
qed



lemmas io_eval =
  process_file_def process_file_try_def after_decode_def announce_def backup_step_def
  read_bytes_def touch_def decode_def encode_def
  is_cont_def low6_def demo_world_def demo_vault_def demo_file_def relative_to_def print_def
  str_rel_def str_int_def set_fs_def refuse_nothing_def list_all_iff



theorem decode_error_unreachable_witness:
  "fst (read_first [Utf8, Utf8Sig, Latin1] demo_file (demo_world [0xFF] (\<lambda>op q. False))) =
     Inr (Some ([255], Latin1)) \<and>
   error (fst (process_file demo_file demo_vault False True False
                 (demo_world [0xFF] (\<lambda>op q. False)))) \<noteq>
     Some (ustr ''Could not decode file with supported encodings'')"
proof -
  have "fst (read_first [Utf8, Utf8Sig, Latin1] demo_file (demo_world [0xFF] (\<lambda>op q. False))) =
     Inr (Some ([255], Latin1))"
    by (simp add: io_eval)
  then show ?thesis
    using decode_error_unreachable [of "[0xFF]" demo_file "demo_world [0xFF] (\<lambda>op q. False)"
            demo_vault False True False]
    by simp
qed

lemma mkstemp_cases:
  assumes "mkstemp sfx pfx dir w = (res, w1)"
  shows "(case res of
            Inl e \<Rightarrow> w1 = w
          | Inr temp \<Rightarrow>
              fs w temp = None \<and> (\<exists>r. temp = dir @ [pfx @ r @ sfx]) \<and>
              w1 = set_fs ((fs w)(temp \<mapsto> File [] (now_meta w))) w)"
proof (cases "denied w OpCreate dir")
  case True
  with assms show ?thesis by (auto simp: mkstemp_def)
next
  case nd: False
  show ?thesis
  proof (cases "fs w dir")
    case None
    with assms nd show ?thesis by (auto simp: mkstemp_def)
  next
    case (Some n)
    show ?thesis
    proof (cases n)
      case (File bs m)
      with assms nd Some show ?thesis by (auto simp: mkstemp_def)
    next
      case Dir
      show ?thesis
      proof (cases "find (\<lambda>r. fs w (dir @ [pfx @ r @ sfx]) = None) (tmp_names w)")
        case None
        with assms nd Some Dir show ?thesis by (auto simp: mkstemp_def)
      next
        case (Some r)
        then have "fs w (dir @ [pfx @ r @ sfx]) = None"
          by (auto simp: find_Some_iff)
        with assms nd \<open>fs w dir = Some n\<close> Dir Some show ?thesis
          by (auto simp: mkstemp_def Let_def)
      qed
    qed
  qed
qed

lemma temp_beside_target:
  assumes "temp = parent p @ [ustr ''.'' @ name p @ ustr ''_'' @ r @ ustr ''.tmp'']"
  shows "parent temp = parent p" and "temp \<noteq> p"
proof -
  show "parent temp = parent p"
    by (simp add: assms parent_def)
  show "temp \<noteq> p"
  proof
    assume eq: "temp = p"
    then have "p \<noteq> []" using assms by auto
    then have "name p = last p"
      by (simp add: name_def)
    also have "last p = last temp"
      using eq by simp
    also have "last temp = ustr ''.'' @ name p @ ustr ''_'' @ r @ ustr ''.tmp''"
      by (simp add: assms)
    finally have "name p = ustr ''.'' @ name p @ ustr ''_'' @ r @ ustr ''.tmp''" .
    then have "length (name p) = length (ustr ''.'' @ name p @ ustr ''_'' @ r @ ustr ''.tmp'')"
      by (rule arg_cong)
    then show False by (simp add: ustr_def)
  qed
qed

lemma write_file_atomic_cases:
  assumes "write_file_atomic p content enc w = (res, w')"
  shows "case mkstemp (ustr ''.tmp'') (ustr ''.'' @ name p @ ustr ''_'') (parent p) w of
           (Inl e, w1) \<Rightarrow> res = Inl e \<and> w' = w
         | (Inr temp, w1) \<Rightarrow>
             parent temp = parent p \<and> temp \<noteq> p \<and> fs w temp = None \<and>
             (\<forall>f \<in> set (drop (length (history w)) (history w')).
                f p = fs w p \<or>
                (\<exists>bs. encode enc content = Some bs \<and> f p = Some (File bs (now_meta w)))) \<and>
             (case res of
                Inr u \<Rightarrow>
                  (\<exists>bs. encode enc content = Some bs \<and>
                     history w' = history w @
                       [(fs w)(temp \<mapsto> File [] (now_meta w)),
                        (fs w)(temp \<mapsto> File bs (now_meta w)),
                        (fs w)(p \<mapsto> File bs (now_meta w))] \<and>
                     fs w' = (fs w)(p \<mapsto> File bs (now_meta w)))
              | Inl e \<Rightarrow>
                  (fst (write_text temp content enc w1) = Inl e \<or>
                   (\<exists>w2. write_text temp content enc w1 = (Inr (), w2) \<and>
                         fst (replace temp p w2) = Inl e)) \<and>
                  (\<forall>q. q \<noteq> temp \<longrightarrow> fs w' q = fs w q) \<and>
                  (if denied w OpUnlink temp then fs w' temp \<noteq> None else fs w' temp = None))"
proof (cases "mkstemp (ustr ''.tmp'') (ustr ''.'' @ name p @ ustr ''_'') (parent p) w")
  case (Pair r1 w1)
  show ?thesis
  proof (cases r1)
    case (Inl e)
    with Pair mkstemp_cases [OF Pair] assms show ?thesis
      by (auto simp: write_file_atomic_def)
  next
    case (Inr temp)
    from mkstemp_cases [OF Pair] Inr obtain r where
      fresh: "fs w temp = None" and
      temp: "temp = parent p @ [ustr ''.'' @ name p @ ustr ''_'' @ r @ ustr ''.tmp'']" and
      w1: "w1 = set_fs ((fs w)(temp \<mapsto> File [] (now_meta w))) w"
      by auto
    note beside = temp_beside_target [OF temp]
    have z: "(fs w)(temp := None) = fs w"
      using fresh by (rule fun_upd_idem)
    have run: "write_file_atomic p content enc w =
        (case (case write_text temp content enc w1 of
                 (Inl e, w2) \<Rightarrow> (Inl e, w2)
               | (Inr u, w2) \<Rightarrow> replace temp p w2) of
           (Inr u, w3) \<Rightarrow> (Inr (), w3)
         | (Inl e, w3) \<Rightarrow>
             (case unlink temp w3 of
                (Inl (OSError err q), w4) \<Rightarrow> (Inl e, w4)
              | (Inl e', w4) \<Rightarrow> (Inl e', w4)
              | (Inr u, w4) \<Rightarrow> (Inl e, w4)))"
      by (simp add: write_file_atomic_def Pair Inr)
    have body: "parent temp = parent p \<and> temp \<noteq> p \<and> fs w temp = None \<and>
             (\<forall>f \<in> set (drop (length (history w)) (history w')).
                f p = fs w p \<or>
                (\<exists>bs. encode enc content = Some bs \<and> f p = Some (File bs (now_meta w)))) \<and>
             (case res of
                Inr u \<Rightarrow>
                  (\<exists>bs. encode enc content = Some bs \<and>
                     history w' = history w @
                       [(fs w)(temp \<mapsto> File [] (now_meta w)),
                        (fs w)(temp \<mapsto> File bs (now_meta w)),
                        (fs w)(p \<mapsto> File bs (now_meta w))] \<and>
                     fs w' = (fs w)(p \<mapsto> File bs (now_meta w)))
              | Inl e \<Rightarrow>
                  (fst (write_text temp content enc w1) = Inl e \<or>
                   (\<exists>w2. write_text temp content enc w1 = (Inr (), w2) \<and>
                         fst (replace temp p w2) = Inl e)) \<and>
                  (\<forall>q. q \<noteq> temp \<longrightarrow> fs w' q = fs w q) \<and>
                  (if denied w OpUnlink temp then fs w' temp \<noteq> None else fs w' temp = None))"
    proof (cases "encode enc content")
      case None
      with assms [unfolded run] beside fresh z show ?thesis
        by (auto simp: w1 write_text_def unlink_def set_fs_def Let_def split: if_splits)
    next
      case (Some bs)
      show ?thesis
      proof (cases "denied w OpWrite temp")
        case True
        with assms [unfolded run] beside fresh z Some show ?thesis
          by (auto simp: w1 write_text_def unlink_def set_fs_def Let_def split: if_splits)
      next
        case wr: False
        have upd: "(fs w)(temp \<mapsto> File bs (now_meta w), p \<mapsto> File bs (now_meta w), temp := None) =
                   (fs w)(p \<mapsto> File bs (now_meta w))"
          using beside(2) z by (metis fun_upd_twist fun_upd_upd)
        from assms [unfolded run] beside fresh z Some wr upd show ?thesis
          by (auto simp: w1 write_text_def replace_def unlink_def set_fs_def Let_def split: if_splits)
      qed
    qed
    with Pair Inr show ?thesis by simp
  qed
qed

text \<open>
  Claim C7, amended.  When \<^verbatim>\<open>mkstemp\<close> fails, its exception is propagated and nothing has
  changed.  Otherwise the temporary file is new, lies in the directory of the target and is
  not the target, and in every state of the file system during the call the target is
  either what it was before or a file holding the whole encoded content.  On success the
  file system went through three states, the empty temporary file, the temporary file with
  the whole content, the target replaced and the temporary file gone.  On failure the
  exception raised is the one of the write or of the replace, every path other than the
  temporary file is as before the call, the target included, and the temporary file is gone
  unless the system refuses to unlink it, in which case it stays.
\<close>

theorem write_file_atomic_effect:
  assumes "write_file_atomic p content enc w = (res, w')"
  shows "case mkstemp (ustr ''.tmp'') (ustr ''.'' @ name p @ ustr ''_'') (parent p) w of
           (Inl e, w1) \<Rightarrow> res = Inl e \<and> w' = w
         | (Inr temp, w1) \<Rightarrow>
             parent temp = parent p \<and> temp \<noteq> p \<and> fs w temp = None \<and>
             (\<forall>f \<in> set (drop (length (history w)) (history w')).
                f p = fs w p \<or>
                (\<exists>bs. encode enc content = Some bs \<and> f p = Some (File bs (now_meta w)))) \<and>
             (case res of
                Inr u \<Rightarrow>
                  (\<exists>bs. encode enc content = Some bs \<and>
                     history w' = history w @
                       [(fs w)(temp \<mapsto> File [] (now_meta w)),
                        (fs w)(temp \<mapsto> File bs (now_meta w)),
                        (fs w)(p \<mapsto> File bs (now_meta w))] \<and>
                     fs w' = (fs w)(p \<mapsto> File bs (now_meta w)))
              | Inl e \<Rightarrow>
                  (fst (write_text temp content enc w1) = Inl e \<or>
                   (\<exists>w2. write_text temp content enc w1 = (Inr (), w2) \<and>
                         fst (replace temp p w2) = Inl e)) \<and>
                  (\<forall>q. q \<noteq> temp \<longrightarrow> fs w' q = fs w q) \<and>
                  (if denied w OpUnlink temp then fs w' temp \<noteq> None else fs w' temp = None))"
  using assms by (rule write_file_atomic_cases)

lemmas fs_eval =
  write_file_atomic_def mkstemp_def write_text_def replace_def unlink_def set_fs_def
  name_def parent_def encode_def demo_world_def demo_vault_def demo_file_def demo_temp_def
  refuse_nothing_def refuse_write_and_unlink_def ustr_def Let_def

text \<open>
  The claim as stated says that the temporary file is removed after every failure.  Here the
  write fails and the unlink is refused: the exception of the write is propagated and the
  temporary file, which did not exist before, stays with the one byte that was written.
\<close>

theorem temp_file_left_behind_counterexample:
  "fs (demo_world [0x23, 0x20, 0x54] refuse_write_and_unlink) demo_temp = None \<and>
   fst (write_file_atomic demo_file (ustr ''## T'') Utf8
          (demo_world [0x23, 0x20, 0x54] refuse_write_and_unlink)) =
     Inl (OSError ENOSPC demo_temp) \<and>
   fs (snd (write_file_atomic demo_file (ustr ''## T'') Utf8
              (demo_world [0x23, 0x20, 0x54] refuse_write_and_unlink))) demo_temp =
     Some (File [0x23] 2)"
  by (simp add: fs_eval)

theorem write_file_atomic_effect_witness:
  "fs (snd (write_file_atomic demo_file (ustr ''## T'') Utf8
              (demo_world [0x23, 0x20, 0x54] refuse_nothing))) =
     (fs (demo_world [0x23, 0x20, 0x54] refuse_nothing))
       (demo_file \<mapsto> File [0x23, 0x23, 0x20, 0x54] 2) \<and>
   fs (snd (write_file_atomic demo_file (ustr ''## T'') Utf8
              (demo_world [0x23, 0x20, 0x54] refuse_write_and_unlink))) demo_file =
     Some (File [0x23, 0x20, 0x54] 1)"
proof -
  let ?w = "demo_world [0x23, 0x20, 0x54] refuse_nothing"
  let ?x = "write_file_atomic demo_file (ustr ''## T'') Utf8 ?w"
  let ?v = "demo_world [0x23, 0x20, 0x54] refuse_write_and_unlink"
  let ?y = "write_file_atomic demo_file (ustr ''## T'') Utf8 ?v"
  have mk: "mkstemp (ustr ''.tmp'') (ustr ''.'' @ name demo_file @ ustr ''_'') (parent demo_file) ?w =
      (Inr demo_temp, set_fs ((fs ?w)(demo_temp \<mapsto> File [] (now_meta ?w))) ?w)"
    by (simp add: fs_eval)
  have ok: "fst ?x = Inr ()"
    by (simp add: fs_eval)
  have enc: "encode Utf8 (ustr ''## T'') = Some [0x23, 0x23, 0x20, 0x54]"
    by (simp add: encode_def ustr_def)
  have "?x = (fst ?x, snd ?x)" by simp
  from write_file_atomic_effect [OF this, unfolded mk ok]
  have "\<exists>bs. encode Utf8 (ustr ''## T'') = Some bs \<and>
          fs (snd ?x) = (fs ?w)(demo_file \<mapsto> File bs (now_meta ?w))"
    by auto
  then have a: "fs (snd ?x) = (fs ?w)(demo_file \<mapsto> File [0x23, 0x23, 0x20, 0x54] 2)"
    unfolding enc by (simp add: demo_world_def)
  have mk': "mkstemp (ustr ''.tmp'') (ustr ''.'' @ name demo_file @ ustr ''_'') (parent demo_file) ?v =
      (Inr demo_temp, set_fs ((fs ?v)(demo_temp \<mapsto> File [] (now_meta ?v))) ?v)"
    by (simp add: fs_eval)
  have bad: "fst ?y = Inl (OSError ENOSPC demo_temp)"
    by (simp add: fs_eval)
  have ne: "demo_file \<noteq> demo_temp"
    by (simp add: demo_file_def demo_temp_def ustr_def)
  have "?y = (fst ?y, snd ?y)" by simp
  from write_file_atomic_effect [OF this, unfolded mk' bad]
  have "\<forall>q. q \<noteq> demo_temp \<longrightarrow> fs (snd ?y) q = fs ?v q"
    by simp
  with ne have "fs (snd ?y) demo_file = fs ?v demo_file" by blast
  then have b: "fs (snd ?y) demo_file = Some (File [0x23, 0x20, 0x54] 1)"
    by (simp add: demo_world_def demo_file_def demo_vault_def ustr_def)
  from a b show ?thesis by simp
qed














lemma prints_ok:
  assumes "\<forall>c. stdout_encodes w c"
  shows "prints ss w = (Inr (), w\<lparr>stdout := stdout w @ ss\<rparr>)"
  using assms by (induction ss arbitrary: w) (simp_all add: print_def list_all_iff)

lemma find_markdown_files_stdout:
  "find_markdown_files v ex (w\<lparr>stdout := s\<rparr>) = find_markdown_files v ex w"
  by (simp add: find_markdown_files_def)

lemma demo_files:
  "walk_view w = (\<lambda>p. DTree [] [ustr ''a.md'']) \<Longrightarrow> find_markdown_files demo_vault {} w = [demo_file]"
  by (simp add: find_markdown_files_def should_exclude_def endswith_def startswith_def
        DEFAULT_EXCLUDES_def demo_vault_def demo_file_def relative_to_def ustr_def)

lemma process_all_single:
  "process_all [p] v d c vb w = ([fst (process_file p v d c vb w)], snd (process_file p v d c vb w))"
  by (simp split: prod.splits)

lemma too_large_result:
  assumes "fs w demo_file = Some (File bs m)" "\<not> denied w OpRead demo_file" "memory w < length bs"
  shows "process_file demo_file demo_vault dr cb vb w =
           (\<lparr>file_path = demo_file, replacements = 0, modified = False, error = Some []\<rparr>,
            touch demo_file w)"
  using assms
  by (simp add: process_file_def process_file_try_def read_bytes_def str_exn_def)

text \<open>
  Claim C8.  A preview run on a vault \<open>/v\<close> whose one file \<open>/v/a.md\<close> does not fit into
  memory: the vault path is a directory, \<^verbatim>\<open>f.read()\<close> raises \<^verbatim>\<open>MemoryError\<close>, the result
  of the file carries the error \<^verbatim>\<open>str(e)\<close>, which is the empty text, \<^verbatim>\<open>if r.error\<close>
  leaves it out of the errors of the summary, and \<^verbatim>\<open>main\<close> returns 0.
\<close>

theorem empty_error_text_exit_code:
  "fs ((demo_world [0x23, 0x20, 0x54] refuse_nothing)\<lparr>memory := 2\<rparr>) demo_vault = Some Dir \<and>
   run_results (demo_args demo_vault False) ((demo_world [0x23, 0x20, 0x54] refuse_nothing)\<lparr>memory := 2\<rparr>) =
     [\<lparr>file_path = demo_file, replacements = 0, modified = False, error = Some []\<rparr>] \<and>
   fst (main (demo_args demo_vault False) ((demo_world [0x23, 0x20, 0x54] refuse_nothing)\<lparr>memory := 2\<rparr>)) =
     Inr 0 \<and>
   exit_status (demo_args demo_vault False) ((demo_world [0x23, 0x20, 0x54] refuse_nothing)\<lparr>memory := 2\<rparr>) = 0"
proof -
  let ?w = "(demo_world [0x23, 0x20, 0x54] refuse_nothing)\<lparr>memory := 2\<rparr>"
  let ?a = "demo_args demo_vault False"
  have dir: "fs ?w demo_vault = Some Dir"
    by (simp add: demo_world_def demo_vault_def demo_file_def ustr_def)
  have p1: "prints ss ?w = (Inr (), ?w\<lparr>stdout := ss\<rparr>)" for ss
    using prints_ok [of ?w ss] by (simp add: demo_world_def)
  have p2: "prints ss (?w\<lparr>stdout := s\<rparr>) = (Inr (), ?w\<lparr>stdout := s @ ss\<rparr>)" for s ss
    using prints_ok [of "?w\<lparr>stdout := s\<rparr>" ss] by (simp add: demo_world_def)
  have p3: "prints ss (touch demo_file (?w\<lparr>stdout := s\<rparr>)) =
              (Inr (), (touch demo_file (?w\<lparr>stdout := s\<rparr>))\<lparr>stdout := s @ ss\<rparr>)" for s ss
    using prints_ok [of "touch demo_file (?w\<lparr>stdout := s\<rparr>)" ss]
    by (simp add: demo_world_def touch_def)
  have files: "find_markdown_files demo_vault {} ?w = [demo_file]"
    by (rule demo_files) (simp add: demo_world_def)
  have one: "process_file demo_file demo_vault True True False (?w\<lparr>stdout := s\<rparr>) =
       (\<lparr>file_path = demo_file, replacements = 0, modified = False, error = Some []\<rparr>,
        touch demo_file (?w\<lparr>stdout := s\<rparr>))" for s
    by (rule too_large_result [where bs = "[0x23, 0x20, 0x54]" and m = 1])
       (simp_all add: demo_world_def refuse_nothing_def demo_file_def demo_vault_def ustr_def)
  have res: "run_results ?a ?w =
     [\<lparr>file_path = demo_file, replacements = 0, modified = False, error = Some []\<rparr>]"
    unfolding run_results_def demo_args_def parse_excludes_def Let_def
    by (simp add: p1 p2 find_markdown_files_stdout files process_all_single one del: prints.simps)
  have "fst (run_conversion demo_vault True True False {} ?w) =
          Inr \<lparr>files_scanned = 1, files_changed = 0, total_replacements = 0, errors = []\<rparr>"
    unfolding run_conversion_def Let_def
    by (simp add: p1 p2 find_markdown_files_stdout files process_all_single one error_lines_def
          p3 del: prints.simps split: prod.splits sum.splits)
  then obtain w' where rc: "run_conversion demo_vault True True False {} ?w =
          (Inr \<lparr>files_scanned = 1, files_changed = 0, total_replacements = 0, errors = []\<rparr>, w')"
    by (cases "run_conversion demo_vault True True False {} ?w") simp
  have m: "fst (main ?a ?w) = Inr 0"
    using dir by (simp add: main_def demo_args_def parse_excludes_def Let_def rc)
  then have "exit_status ?a ?w = 0"
    by (simp add: exit_status_def)
  with dir res m show ?thesis by simp
qed


text \<open>
  The same preview run on a vault whose file has no heading, with a standard output that
  encodes ASCII only: the second line of the banner has the character U+2192, its
  \<^verbatim>\<open>print\<close> raises \<^verbatim>\<open>UnicodeEncodeError\<close> outside every \<^verbatim>\<open>try\<close>, no file is
  processed, and the program ends with status 1 although the vault path is a directory
  and no file had an error.
\<close>

lemma ascii_stdout_exit_status:
  "fs ((demo_world [0x54] refuse_nothing)\<lparr>stdout_encodes := (\<lambda>c. c < 128)\<rparr>) demo_vault = Some Dir \<and>
   fst (main (demo_args demo_vault False)
          ((demo_world [0x54] refuse_nothing)\<lparr>stdout_encodes := (\<lambda>c. c < 128)\<rparr>)) =
     Inl UnicodeEncodeError \<and>
   run_results (demo_args demo_vault False)
     ((demo_world [0x54] refuse_nothing)\<lparr>stdout_encodes := (\<lambda>c. c < 128)\<rparr>) = [] \<and>
   exit_status (demo_args demo_vault False)
     ((demo_world [0x54] refuse_nothing)\<lparr>stdout_encodes := (\<lambda>c. c < 128)\<rparr>) = 1"
proof -
  let ?w = "(demo_world [0x54] refuse_nothing)\<lparr>stdout_encodes := (\<lambda>c. c < 128)\<rparr>"
  have dir: "fs ?w demo_vault = Some Dir"
    by (simp add: demo_world_def demo_vault_def demo_file_def ustr_def)
  have b: "fst (prints (banner demo_vault True True {}) ?w) = Inl UnicodeEncodeError"
    by (simp add: banner_def print_def rule60_def demo_world_def list_all_iff NL_def ustr_def)
  then obtain w1 where p: "prints (banner demo_vault True True {}) ?w = (Inl UnicodeEncodeError, w1)"
    by (cases "prints (banner demo_vault True True {}) ?w") simp
  have m: "fst (main (demo_args demo_vault False) ?w) = Inl UnicodeEncodeError"
    using dir by (simp add: main_def run_conversion_def demo_args_def parse_excludes_def Let_def p)
  have r: "run_results (demo_args demo_vault False) ?w = []"
    by (simp add: run_results_def demo_args_def parse_excludes_def Let_def p)
  from m have "exit_status (demo_args demo_vault False) ?w = 1"
    by (simp add: exit_status_def)
  with dir m r show ?thesis by simp
qed

end
